theory Spec2Isabelle
  imports Complex_Main
begin

section \<open>Strings\<close>

text \<open>
  Header labels, field names and error messages are modelled as \<^typ>\<open>string\<close>, read as
  ASCII text. \<open>toLowerCase\<close> maps \<open>A\<close>..\<open>Z\<close> to \<open>a\<close>..\<open>z\<close> and leaves every
  other character alone; the class \<open>\s\<close> of the regular expressions and the characters
  removed by \<open>trim\<close> are the ASCII white space characters (tab, line feed, vertical tab,
  form feed, carriage return, space).
\<close>

definition isUpper :: "char \<Rightarrow> bool" where
  "isUpper c = (65 \<le> (of_char c :: nat) \<and> (of_char c :: nat) \<le> 90)"

definition isLower :: "char \<Rightarrow> bool" where
  "isLower c = (97 \<le> (of_char c :: nat) \<and> (of_char c :: nat) \<le> 122)"

definition isDigit :: "char \<Rightarrow> bool" where
  "isDigit c = (48 \<le> (of_char c :: nat) \<and> (of_char c :: nat) \<le> 57)"

definition isSpace :: "char \<Rightarrow> bool" where
  "isSpace c = ((9 \<le> (of_char c :: nat) \<and> (of_char c :: nat) \<le> 13) \<or> (of_char c :: nat) = 32)"

definition lowerChar :: "char \<Rightarrow> char" where
  "lowerChar c = (if isUpper c then char_of ((of_char c :: nat) + 32) else c)"

definition upperChar :: "char \<Rightarrow> char" where
  "upperChar c = (if isLower c then char_of ((of_char c :: nat) - 32) else c)"

definition toLowerCase :: "string \<Rightarrow> string" where
  "toLowerCase s = map lowerChar s"

definition trim :: "string \<Rightarrow> string" where
  "trim s = rev (dropWhile isSpace (rev (dropWhile isSpace s)))"

section \<open>Header normalizer (settings page)\<close>

text \<open>
  \<^verbatim>\<open>const tolerant = (k: string) =>
    k?.toLowerCase().replace(/\s+/g, '').replace(/[^a-z0-9]/g, '');\<close>
  The argument is always a key of a parsed sheet row, hence a string.
\<close>

definition isAlnumLower :: "char \<Rightarrow> bool" where
  "isAlnumLower c = (isLower c \<or> isDigit c)"

definition tolerant :: "string \<Rightarrow> string" where
  "tolerant k = filter isAlnumLower (filter (\<lambda>c. \<not> isSpace c) (toLowerCase k))"

section \<open>Field mapper (spare-parts page)\<close>

text \<open>
  \<^verbatim>\<open>function findHeaderForField(headers: string[], field: string) {
    const candidates = expectedHeaders[field] || [];
    const lower = headers.map(h => (h || '').toString().toLowerCase().trim());
    for (const cand of candidates) {
      const idx = lower.indexOf(cand.toLowerCase());
      if (idx >= 0) return headers[idx];
    }
    if (headers.includes(field)) return field;
    for (let i = 0; i < lower.length; i++) {
      if (lower[i].includes(field.replace(/_/g, ' '))) return headers[i];
    }
    return null;
  }\<close>
  \<open>expectedHeaders\<close> is an object literal. Looking up one of its six own keys gives the
  alias list; looking up a property name that every object inherits (\<open>inheritedKeys\<close>)
  gives a function or the prototype object, which is truthy and not iterable, so the
  \<open>for ... of\<close> loop raises a \<open>TypeError\<close>; any other name gives \<open>undefined\<close> and the
  empty list is used. The result is \<open>Inl\<close> for the exception, \<open>Inr None\<close> for \<open>null\<close> and
  \<open>Inr (Some h)\<close> for a header.
\<close>

datatype js_error = TypeError

definition expectedHeaders :: "(string \<times> string list) list" where
  "expectedHeaders =
    [(''part_number'', [''part_number'', ''part no'', ''partno'', ''part no.'', ''sku'', ''partno.'']),
     (''name'', [''name'', ''part name'', ''item_name'', ''item name'']),
     (''description'', [''description'', ''desc'', ''details'']),
     (''category'', [''category'', ''cat'']),
     (''compatibility'', [''compatibility'', ''compatible'', ''fits'']),
     (''reorder_threshold'',
        [''reorder_level'', ''reorder_threshold'', ''reorder'', ''reorder level'',
         ''reorder_threshold''])]"

definition inheritedKeys :: "string list" where
  "inheritedKeys =
    [''constructor'', ''toString'', ''toLocaleString'', ''valueOf'', ''hasOwnProperty'',
     ''isPrototypeOf'', ''propertyIsEnumerable'', ''__proto__'', ''__defineGetter__'',
     ''__defineSetter__'', ''__lookupGetter__'', ''__lookupSetter__'']"

definition aliasesOf :: "string \<Rightarrow> string list" where
  "aliasesOf field = (case map_of expectedHeaders field of Some cs \<Rightarrow> cs | None \<Rightarrow> [])"

definition candidatesOf :: "string \<Rightarrow> js_error + string list" where
  "candidatesOf field =
     (case map_of expectedHeaders field of
        Some cs \<Rightarrow> Inr cs
      | None \<Rightarrow> if field \<in> set inheritedKeys then Inl TypeError else Inr [])"

text \<open>\<open>Array.prototype.indexOf\<close>: the first position holding the element.\<close>

fun indexOf :: "'a list \<Rightarrow> 'a \<Rightarrow> nat option" where
  "indexOf [] x = None"
| "indexOf (y # ys) x = (if y = x then Some 0 else map_option Suc (indexOf ys x))"

text \<open>\<open>String.prototype.includes\<close>: the second string occurs in the first.\<close>

fun str_includes :: "string \<Rightarrow> string \<Rightarrow> bool" where
  "str_includes [] needle = (needle = [])"
| "str_includes (c # cs) needle = (take (length needle) (c # cs) = needle \<or> str_includes cs needle)"

definition replaceUnderscores :: "string \<Rightarrow> string" where
  "replaceUnderscores s = map (\<lambda>c. if c = CHR ''_'' then CHR '' '' else c) s"

text \<open>
  The first loop, over the candidates in their listed order; \<open>lower\<close> has the length of
  \<open>headers\<close>, so the index found is in range.
\<close>

fun candidateLoop :: "string list \<Rightarrow> string list \<Rightarrow> string list \<Rightarrow> string option" where
  "candidateLoop headers lower [] = None"
| "candidateLoop headers lower (cand # cands) =
     (case indexOf lower (toLowerCase cand) of
        Some idx \<Rightarrow> Some (headers ! idx)
      | None \<Rightarrow> candidateLoop headers lower cands)"

text \<open>The last loop walks \<open>lower\<close> and \<open>headers\<close> by the same index.\<close>

fun substringLoop :: "string list \<Rightarrow> string list \<Rightarrow> string \<Rightarrow> string option" where
  "substringLoop (h # hs) (l # ls) frag =
     (if str_includes l frag then Some h else substringLoop hs ls frag)"
| "substringLoop _ _ frag = None"

definition findHeaderForField :: "string list \<Rightarrow> string \<Rightarrow> js_error + string option" where
  "findHeaderForField headers field =
     (case candidatesOf field of
        Inl e \<Rightarrow> Inl e
      | Inr candidates \<Rightarrow>
          (let lower = map (\<lambda>h. trim (toLowerCase h)) headers in
           case candidateLoop headers lower candidates of
             Some h \<Rightarrow> Inr (Some h)
           | None \<Rightarrow>
               if field \<in> set headers then Inr (Some field)
               else Inr (substringLoop headers lower (replaceUnderscores field))))"

text \<open>
  The resolution order in words, for comparison with the code: first the aliases in
  order, an alias matching a header when both agree after lower-casing; then the raw
  field name among the raw headers; then the field name with underscores replaced by
  spaces as a substring of a lower-cased header. \<open>resolve_claimed\<close> compares with the
  lower-cased header; \<open>resolve_amended\<close> with the lower-cased and trimmed header.
\<close>

definition resolve_claimed :: "string list \<Rightarrow> string list \<Rightarrow> string \<Rightarrow> string option" where
  "resolve_claimed aliases headers field =
     (case find (\<lambda>c. \<exists>h \<in> set headers. toLowerCase h = toLowerCase c) aliases of
        Some c \<Rightarrow> find (\<lambda>h. toLowerCase h = toLowerCase c) headers
      | None \<Rightarrow>
          if field \<in> set headers then Some field
          else find (\<lambda>h. str_includes (toLowerCase h) (replaceUnderscores field)) headers)"

definition resolve_amended :: "string list \<Rightarrow> string list \<Rightarrow> string \<Rightarrow> string option" where
  "resolve_amended aliases headers field =
     (case find (\<lambda>c. \<exists>h \<in> set headers. trim (toLowerCase h) = toLowerCase c) aliases of
        Some c \<Rightarrow> find (\<lambda>h. trim (toLowerCase h) = toLowerCase c) headers
      | None \<Rightarrow>
          if field \<in> set headers then Some field
          else find (\<lambda>h. str_includes (trim (toLowerCase h)) (replaceUnderscores field)) headers)"

section \<open>Numeric coercion\<close>

text \<open>
  The value of \<open>Number(s)\<close> for a string \<open>s\<close> out of which everything but digits, \<open>.\<close>
  and \<open>-\<close> has been removed. Such a string is the empty string (value \<open>0\<close>), or an
  optional minus sign followed by digits with at most one point and at least one digit;
  every other string gives \<open>NaN\<close>. A finite value is kept as the exact decimal it
  denotes (rounding to the nearest double is not modelled). A magnitude of
  \<open>2^1024 - 2^970\<close> (\<open>doubleOverflow\<close>) or more is an infinity; the bound is a whole
  number, so the digits before the point decide.
\<close>

datatype jsnum = NaN | PosInfinity | NegInfinity | Finite rat

definition isNumericChar :: "char \<Rightarrow> bool" where
  "isNumericChar c = (isDigit c \<or> c = CHR ''.'' \<or> c = CHR ''-'')"

definition stripNonNumeric :: "string \<Rightarrow> string" where
  "stripNonNumeric s = filter isNumericChar s"

definition digitsValue :: "string \<Rightarrow> int" where
  "digitsValue ds = foldl (\<lambda>n c. 10 * n + ((of_char c :: int) - 48)) 0 ds"

definition doubleOverflow :: int where
  "doubleOverflow = 179769313486231580793728971405303415079934132710037826936173778980444968292764750946649017977587207096330286416692887910946555547851940402630657488671505820681908902000708383676273854845817711531764475730270069855571366959622842914819860834936475292719074168444365510704342711559699508093042880177904174497792"

definition unsignedDecimal :: "string \<Rightarrow> jsnum" where
  "unsignedDecimal s =
     (let ip = takeWhile (\<lambda>c. c \<noteq> CHR ''.'') s;
          rest = dropWhile (\<lambda>c. c \<noteq> CHR ''.'') s
      in if \<not> list_all isDigit ip then NaN
         else case rest of
           [] \<Rightarrow>
             if ip = [] then NaN
             else if doubleOverflow \<le> digitsValue ip then PosInfinity
             else Finite (of_int (digitsValue ip))
         | d # fp \<Rightarrow>
             if \<not> list_all isDigit fp \<or> (ip = [] \<and> fp = []) then NaN
             else if doubleOverflow \<le> digitsValue ip then PosInfinity
             else Finite (of_int (digitsValue ip) + of_int (digitsValue fp) / 10 ^ length fp))"

definition negate :: "jsnum \<Rightarrow> jsnum" where
  "negate n =
     (case n of
        NaN \<Rightarrow> NaN
      | PosInfinity \<Rightarrow> NegInfinity
      | NegInfinity \<Rightarrow> PosInfinity
      | Finite q \<Rightarrow> Finite (- q))"

definition jsNumber :: "string \<Rightarrow> jsnum" where
  "jsNumber s =
     (case s of
        [] \<Rightarrow> Finite 0
      | c # r \<Rightarrow> if c = CHR ''-'' then negate (unsignedDecimal r) else unsignedDecimal s)"

text \<open>
  A cell is \<open>None\<close> for \<open>null\<close> or \<open>undefined\<close> and \<open>Some s\<close> otherwise, \<open>s\<close> being the
  text \<open>String(v)\<close> of the cell: the importers apply \<open>String\<close> to a cell before they
  look at it, and test it for \<open>null\<close> at most before that.

  Inventory page:
  \<^verbatim>\<open>const safeNum = (v: any) => {
    const n = Number(String(v ?? '').replace(/[^0-9.\-]/g, ''));
    return Number.isFinite(n) ? n : 0;
  };\<close>
\<close>

type_synonym cell = "string option"

definition safeNum :: "cell \<Rightarrow> rat" where
  "safeNum v =
     (case jsNumber (stripNonNumeric (case v of None \<Rightarrow> [] | Some s \<Rightarrow> s)) of
        Finite n \<Rightarrow> n
      | _ \<Rightarrow> 0)"

section \<open>Row preparation of the spare-parts import\<close>

text \<open>
  A parsed sheet row is an object from column label to cell, kept as the list of its
  entries in column order; reading a label the row does not have gives \<open>undefined\<close>.
  \<^verbatim>\<open>const mapHeader = (field: string) => {
    const h = findHeaderForField(headers, field);
    if (h) return h;
    const frag = field.split('_').join(' ').toLowerCase();
    for (const hh of headers) {
      if ((hh || '').toString().toLowerCase().includes(frag)) return hh;
    }
    return null;
  };
  const get = (f: string) => {
    const h = mapHeader(f);
    return h ? (r[h] ?? null) : null;
  };\<close>
\<close>

type_synonym raw_row = "(string \<times> cell) list"

definition cellAt :: "raw_row \<Rightarrow> string \<Rightarrow> cell" where
  "cellAt r k = (case map_of r k of Some c \<Rightarrow> c | None \<Rightarrow> None)"

definition orElse :: "cell \<Rightarrow> cell \<Rightarrow> cell" where
  "orElse a b = (case a of None \<Rightarrow> b | Some x \<Rightarrow> Some x)"

definition truthy :: "string option \<Rightarrow> bool" where
  "truthy h = (case h of None \<Rightarrow> False | Some x \<Rightarrow> x \<noteq> [])"

definition mapHeader :: "string list \<Rightarrow> string \<Rightarrow> js_error + string option" where
  "mapHeader headers field =
     (case findHeaderForField headers field of
        Inl e \<Rightarrow> Inl e
      | Inr h \<Rightarrow>
          if truthy h then Inr h
          else Inr (find (\<lambda>hh. str_includes (toLowerCase hh)
                                (toLowerCase (replaceUnderscores field))) headers))"

definition get :: "string list \<Rightarrow> raw_row \<Rightarrow> string \<Rightarrow> js_error + cell" where
  "get headers r f =
     (case mapHeader headers f of
        Inl e \<Rightarrow> Inl e
      | Inr h \<Rightarrow> Inr (case h of None \<Rightarrow> None | Some x \<Rightarrow> if x = [] then None else cellAt r x))"

text \<open>
  The \<open>reorder_threshold\<close> entry of the prepared row:
  \<^verbatim>\<open>reorder_threshold: (() => {
    const v = (get('reorder_threshold') ?? r['reorder_threshold'] ?? r['Reorder Level'] ?? null);
    if (v === null || v === '') return null;
    const n = Number(String(v).replace(/[^0-9.-]/g, ''));
    return Number.isFinite(n) ? n : null;
  })(),\<close>
  The sheet is read with \<open>raw: false\<close> and \<open>defval: null\<close>, so a cell is a string or
  \<open>null\<close>.
\<close>

definition coerceThreshold :: "cell \<Rightarrow> rat option" where
  "coerceThreshold v =
     (case v of
        None \<Rightarrow> None
      | Some s \<Rightarrow>
          if s = [] then None
          else (case jsNumber (stripNonNumeric s) of Finite n \<Rightarrow> Some n | _ \<Rightarrow> None))"

definition reorder_threshold :: "string list \<Rightarrow> raw_row \<Rightarrow> js_error + rat option" where
  "reorder_threshold headers r =
     (case get headers r ''reorder_threshold'' of
        Inl e \<Rightarrow> Inl e
      | Inr g \<Rightarrow>
          Inr (coerceThreshold
                 (orElse g (orElse (cellAt r ''reorder_threshold'') (cellAt r ''Reorder Level'')))))"

section \<open>Row objects and the database client\<close>

text \<open>
  A JavaScript object is the list of its own entries in insertion order, with distinct
  keys; a key that is absent reads as \<open>undefined\<close>.
\<close>

datatype jsval = JUndefined | JNull | JBool bool | JNum rat | JStr string | JObject

type_synonym js_object = "(string \<times> jsval) list"

definition getProp :: "js_object \<Rightarrow> string \<Rightarrow> jsval" where
  "getProp obj k = (case map_of obj k of Some v \<Rightarrow> v | None \<Rightarrow> JUndefined)"

definition deleteKey :: "string \<Rightarrow> js_object \<Rightarrow> js_object" where
  "deleteKey k obj = filter (\<lambda>(k', v). k' \<noteq> k) obj"

text \<open>
  A write goes to the hosted database through its client. The call either throws (the
  promise is rejected) or answers with an object whose \<open>error\<close> is \<open>null\<close> or an error
  object. The database is a parameter: a function from its state and the request to the
  answer and the next state. Every call an importer makes is recorded, in the order the
  calls are made, with the place in the program that made it and the answer it got; an
  importer awaits the answer of a call before it goes on.
\<close>

record db_error =
  message :: string
  details :: string
  stringified :: string

datatype response = Threw string | Responded "db_error option"

datatype request =
    InsertRows string "js_object list"
  | UpsertRows string "js_object list" string

type_synonym 's client = "'s \<Rightarrow> request \<Rightarrow> response \<times> 's"

datatype call_site = FirstAttempt | Retry | Upsert

record call =
  site :: call_site
  request :: request
  response :: response

definition failed :: "response \<Rightarrow> bool" where
  "failed r = (case r of Threw m \<Rightarrow> True | Responded e \<Rightarrow> e \<noteq> None)"

section \<open>Schema-drift retry (spare-parts page)\<close>

text \<open>
  \<^verbatim>\<open>function camelToSnake(s: string) {
    return s.replace(/[A-Z]/g, letter => `_${letter.toLowerCase()}`);
  }
  function snakeToCamel(s: string) {
    return s.replace(/_([a-z])/g, (_, g) => g.toUpperCase());
  }\<close>
\<close>

definition camelToSnake :: "string \<Rightarrow> string" where
  "camelToSnake s = concat (map (\<lambda>c. if isUpper c then [CHR ''_'', lowerChar c] else [c]) s)"

fun snakeToCamel :: "string \<Rightarrow> string" where
  "snakeToCamel (a # b # r) =
     (if a = CHR ''_'' \<and> isLower b then upperChar b # snakeToCamel r
      else a # snakeToCamel (b # r))"
| "snakeToCamel s = s"

text \<open>
  \<^verbatim>\<open>msg.match(/column\s+"?([^"\s]+)"?\s+of\s+relation/i)\<close>
  \<open>matchHere\<close> matches the expression at the start of the text and gives the captured
  column name. No alternative of the expression needs backtracking: each repetition is
  followed by something it cannot itself match. \<open>missingMatch\<close> tries every start
  position from the left, as an unanchored search does.
\<close>

definition dquote :: char where
  "dquote = CHR 0x22"

definition skipQuote :: "string \<Rightarrow> string" where
  "skipQuote s = (case s of [] \<Rightarrow> [] | c # r \<Rightarrow> if c = dquote then r else s)"

definition isNameChar :: "char \<Rightarrow> bool" where
  "isNameChar c = (c \<noteq> dquote \<and> \<not> isSpace c)"

definition matchHere :: "string \<Rightarrow> string option" where
  "matchHere s =
     (if toLowerCase (take 6 s) \<noteq> ''column'' then None
      else let r1 = drop 6 s in
      if takeWhile isSpace r1 = [] then None
      else let r2 = skipQuote (dropWhile isSpace r1);
               col = takeWhile isNameChar r2 in
      if col = [] then None
      else let r3 = skipQuote (dropWhile isNameChar r2) in
      if takeWhile isSpace r3 = [] then None
      else let r4 = dropWhile isSpace r3 in
      if toLowerCase (take 2 r4) \<noteq> ''of'' then None
      else let r5 = drop 2 r4 in
      if takeWhile isSpace r5 = [] then None
      else if toLowerCase (take 8 (dropWhile isSpace r5)) = ''relation'' then Some col
      else None)"

fun missingMatch :: "string \<Rightarrow> string option" where
  "missingMatch [] = None"
| "missingMatch (c # cs) =
     (case matchHere (c # cs) of Some col \<Rightarrow> Some col | None \<Rightarrow> missingMatch cs)"

text \<open>
  \<^verbatim>\<open>async function tryInsertWithMissingColumnRecovery(table: string, batch: any[]) {
    const resp = await supabase.from(table).insert(batch);
    if (!resp.error) return resp;
    const msg = resp.error.message || '';
    const missingMatch = msg.match(/column\s+"?([^"\s]+)"?\s+of\s+relation/i);
    if (missingMatch && missingMatch[1]) {
      const missingCol = missingMatch[1];
      const cleaned = batch.map((r) => {
        const copy: any = { ...r };
        delete copy[missingCol];
        delete copy[camelToSnake(missingCol)];
        delete copy[snakeToCamel(missingCol)];
        return copy;
      });
      const resp2 = await supabase.from(table).insert(cleaned);
      return resp2;
    }
    return resp;
  }\<close>
  The result is the answer returned (or the exception thrown), the state of the database
  and the calls made.
\<close>

definition cleanRow :: "string \<Rightarrow> js_object \<Rightarrow> js_object" where
  "cleanRow missingCol r =
     deleteKey (snakeToCamel missingCol) (deleteKey (camelToSnake missingCol) (deleteKey missingCol r))"

definition tryInsertWithMissingColumnRecovery ::
  "'s client \<Rightarrow> 's \<Rightarrow> string \<Rightarrow> js_object list \<Rightarrow> response \<times> 's \<times> call list" where
  "tryInsertWithMissingColumnRecovery db s table batch =
     (let (resp, s1) = db s (InsertRows table batch);
          first = \<lparr>site = FirstAttempt, request = InsertRows table batch, response = resp\<rparr>
      in case resp of
           Threw m \<Rightarrow> (resp, s1, [first])
         | Responded None \<Rightarrow> (resp, s1, [first])
         | Responded (Some e) \<Rightarrow>
             (case missingMatch (message e) of
                None \<Rightarrow> (resp, s1, [first])
              | Some missingCol \<Rightarrow>
                  let cleaned = map (cleanRow missingCol) batch;
                      (resp2, s2) = db s1 (InsertRows table cleaned)
                  in (resp2, s2,
                      [first, \<lparr>site = Retry, request = InsertRows table cleaned,
                                response = resp2\<rparr>])))"

section \<open>Batch submission\<close>

text \<open>The batches of a list: consecutive slices of at most \<open>n\<close> rows.\<close>

function chunks :: "nat \<Rightarrow> 'a list \<Rightarrow> 'a list list" where
  "chunks n xs = (if n = 0 \<or> xs = [] then [] else take n xs # chunks n (drop n xs))"
  by pat_completeness auto
termination
  by (relation "measure (\<lambda>(n, xs). length xs)") auto

text \<open>
  Spare-parts page, the end of \<open>doImportSelectedSheet\<close>; \<open>toInsert\<close> holds one prepared
  row object for each row of the sheet, in the sheet's order.
  \<^verbatim>\<open>if (toInsert.length === 0) {
    setImportError('No valid rows prepared for insert.');
    return;
  }
  const BATCH_SIZE = 200;
  for (let i = 0; i < toInsert.length; i += BATCH_SIZE) {
    const batch = toInsert.slice(i, i + BATCH_SIZE);
    const resp = await tryInsertWithMissingColumnRecovery('spare_parts', batch);
    if (resp.error) {
      const errMsg = resp.error.message || JSON.stringify(resp.error);
      const errDetails = (resp.error as any).details || '';
      setImportError(`Supabase insert failed: ${errMsg} ${errDetails}`);
      return;
    }
  }
  await fetchCategoriesCache();
  await fetchSpareParts();
  ...
  alert(`Imported ${toInsert.length} rows successfully.`);
  } catch (err: any) {
    setImportError(err?.message || String(err));
  }\<close>
  The two refreshes after the loop catch their own failures and write nothing. The loop
  is a recursion over the rows not yet sent; its result is the text given to
  \<open>setImportError\<close>, if any.
\<close>

definition BATCH_SIZE :: nat where
  "BATCH_SIZE = 200"

definition surfaced :: "response \<Rightarrow> string" where
  "surfaced r =
     (case r of
        Threw m \<Rightarrow> m
      | Responded None \<Rightarrow> []
      | Responded (Some e) \<Rightarrow>
          ''Supabase insert failed: '' @ (if message e \<noteq> [] then message e else stringified e)
            @ '' '' @ details e)"

function insertBatches :: "'s client \<Rightarrow> 's \<Rightarrow> js_object list \<Rightarrow> string option \<times> 's \<times> call list" where
  "insertBatches db s rows =
     (if rows = [] then (None, s, [])
      else case tryInsertWithMissingColumnRecovery db s ''spare_parts'' (take BATCH_SIZE rows) of
        (resp, s1, calls) \<Rightarrow>
          if failed resp then (Some (surfaced resp), s1, calls)
          else case insertBatches db s1 (drop BATCH_SIZE rows) of
            (res, s2, later) \<Rightarrow> (res, s2, calls @ later))"
  by pat_completeness auto
termination
  by (relation "measure (\<lambda>(db, s, rows). length rows)") (auto simp: BATCH_SIZE_def)

datatype outcome = ImportError string | Alerted nat | ImportMessage nat

definition doImportSelectedSheet ::
  "'s client \<Rightarrow> 's \<Rightarrow> js_object list \<Rightarrow> outcome \<times> 's \<times> call list" where
  "doImportSelectedSheet db s toInsert =
     (if toInsert = [] then (ImportError ''No valid rows prepared for insert.'', s, [])
      else case insertBatches db s toInsert of
        (Some msg, s', calls) \<Rightarrow> (ImportError msg, s', calls)
      | (None, s', calls) \<Rightarrow> (Alerted (length toInsert), s', calls))"

text \<open>
  A database for the worked examples: it answers the \<open>n\<close>-th call with the \<open>n\<close>-th
  entry of a script and accepts every call after the script's end. Its state counts the
  calls.
\<close>

definition scripted :: "response list \<Rightarrow> nat client" where
  "scripted script n req = (if n < length script then script ! n else Responded None, Suc n)"

definition missingColumnError :: db_error where
  "missingColumnError =
     \<lparr>message = ''column '' @ [dquote] @ ''rack_id'' @ [dquote] @ '' of relation ''
                  @ [dquote] @ ''spare_parts'' @ [dquote] @ '' does not exist'',
      details = [], stringified = []\<rparr>"

definition duplicateKeyError :: db_error where
  "duplicateKeyError =
     \<lparr>message = ''duplicate key value violates unique constraint'', details = [], stringified = []\<rparr>"

section \<open>Inventory page import\<close>

text \<open>
  \<^verbatim>\<open>const uuidLike = () =>
    `sku-${Date.now().toString(36)}-${Math.floor(Math.random() * 1e6).toString(36)}`;\<close>
  The clock reading \<open>now\<close> (milliseconds) and the random draw \<open>rnd\<close>
  (\<open>Math.floor(Math.random() * 1e6)\<close>, below one million) are arguments, both
  whole numbers that are not negative.
\<close>

definition digit36 :: "int \<Rightarrow> char" where
  "digit36 d = ''0123456789abcdefghijklmnopqrstuvwxyz'' ! nat d"

function toString36 :: "int \<Rightarrow> string" where
  "toString36 n = (if n < 36 then [digit36 n] else toString36 (n div 36) @ [digit36 (n mod 36)])"
  by pat_completeness auto
termination
  by (relation "measure nat") auto

definition uuidLike :: "int \<Rightarrow> int \<Rightarrow> string" where
  "uuidLike now rnd = ''sku-'' @ toString36 now @ ''-'' @ toString36 rnd"

text \<open>
  The row mapping of \<open>importSelectedSheet\<close>. The sheet is read with \<open>defval: ''\<close>, so
  a blank cell of an existing column is the empty string, and a column the sheet does
  not have reads as \<open>undefined\<close>.
  \<^verbatim>\<open>const payloads = json.map((r) => {
    const norm: Record<string, any> = {};
    for (const k of Object.keys(r)) norm[k.trim().toLowerCase()] = r[k];
    const sku = String(norm['item_id'] ?? norm['itemid'] ?? norm['item id'] ?? uuidLike());
    const name = String(norm['item_name'] ?? norm['itemname'] ?? norm['item name'] ?? norm['name'] ?? '');
    const category = String(norm['category'] ?? '').trim() || null;
    const warehouse_id = String(norm['warehouse_id'] ?? norm['warehouseid'] ?? norm['warehouse id'] ?? norm['warehouse'] ?? '').trim() || null;
    const rack_id = String(norm['rack_id'] ?? norm['rackid'] ?? norm['rack id'] ?? norm['rack'] ?? '').trim() || null;
    const qty = safeNum(norm['stock_on_hand'] ?? norm['stock_onhand'] ?? norm['stock on hand'] ?? norm['qty'] ?? 0);
    const reorder_threshold = safeNum(norm['reorder_level'] ?? norm['reorderlevel'] ?? norm['reorder level'] ?? 0);
    const unit_price = safeNum(norm['unit_cost'] ?? norm['unitcost'] ?? norm['unit cost'] ?? norm['unitprice'] ?? 0);
    return { sku, name, category, warehouse_id, rack_id, qty, unit_price, reorder_threshold };
  });\<close>
  In \<open>norm\<close> (here \<open>normOf r\<close>) a later column overwrites an earlier one with the same
  trimmed, lower-cased label.
\<close>

definition normOf :: "raw_row \<Rightarrow> raw_row" where
  "normOf r = rev (map (\<lambda>(k, v). (toLowerCase (trim k), v)) r)"

fun firstNonNull :: "cell list \<Rightarrow> cell" where
  "firstNonNull [] = None"
| "firstNonNull (c # cs) = orElse c (firstNonNull cs)"

definition stringOr :: "cell \<Rightarrow> string \<Rightarrow> string" where
  "stringOr c d = (case c of None \<Rightarrow> d | Some x \<Rightarrow> x)"

definition trimmedOrNull :: "string \<Rightarrow> jsval" where
  "trimmedOrNull x = (if trim x = [] then JNull else JStr (trim x))"

definition payloadOf :: "int \<times> int \<Rightarrow> raw_row \<Rightarrow> js_object" where
  "payloadOf entropy r =
     (let n = cellAt (normOf r) in
      [(''sku'', JStr (stringOr (firstNonNull [n ''item_id'', n ''itemid'', n ''item id''])
                         (uuidLike (fst entropy) (snd entropy)))),
       (''name'', JStr (stringOr (firstNonNull [n ''item_name'', n ''itemname'', n ''item name'',
                                                 n ''name'']) [])),
       (''category'', trimmedOrNull (stringOr (n ''category'') [])),
       (''warehouse_id'', trimmedOrNull (stringOr (firstNonNull [n ''warehouse_id'', n ''warehouseid'',
                                                 n ''warehouse id'', n ''warehouse'']) [])),
       (''rack_id'', trimmedOrNull (stringOr (firstNonNull [n ''rack_id'', n ''rackid'', n ''rack id'',
                                                 n ''rack'']) [])),
       (''qty'', JNum (safeNum (firstNonNull [n ''stock_on_hand'', n ''stock_onhand'',
                                                 n ''stock on hand'', n ''qty'', Some ''0'']))),
       (''unit_price'', JNum (safeNum (firstNonNull [n ''unit_cost'', n ''unitcost'',
                                                 n ''unit cost'', n ''unitprice'', Some ''0'']))),
       (''reorder_threshold'', JNum (safeNum (firstNonNull [n ''reorder_level'', n ''reorderlevel'',
                                                 n ''reorder level'', Some ''0''])))])"

text \<open>
  The batch loop and the end of \<open>importSelectedSheet\<close>:
  \<^verbatim>\<open>// upsert using fallback (strips offending columns if DB complains)
  const batchSize = 300;
  let upserted = 0;
  for (let i = 0; i < payloads.length; i += batchSize) {
    const chunk = payloads.slice(i, i + batchSize);
    const { error } = await supabase.from('inventory_items').upsert(chunk, { onConflict: 'sku,warehouse_id' });
    if (!error) upserted += chunk.length;
  }
  setImportMessage(`Imported ${upserted} rows from "${selectedSheet}".`);
  ...
  await loadInventory();
  } catch (err: any) {
    setImportError(String(err?.message ?? err));
  }\<close>
  \<open>loadInventory\<close> catches its own failures. \<open>entropy i\<close> is the clock reading and the
  random draw available while row \<open>i\<close> is mapped.
\<close>

definition batchSize :: nat where
  "batchSize = 300"

function upsertBatches ::
  "'s client \<Rightarrow> 's \<Rightarrow> js_object list \<Rightarrow> nat \<Rightarrow> (string + nat) \<times> 's \<times> call list" where
  "upsertBatches db s payloads upserted =
     (if payloads = [] then (Inr upserted, s, [])
      else
        let chunk = take batchSize payloads;
            req = UpsertRows ''inventory_items'' chunk ''sku,warehouse_id''
        in case db s req of
          (resp, s1) \<Rightarrow>
            (case resp of
               Threw m \<Rightarrow> (Inl m, s1, [\<lparr>site = Upsert, request = req, response = resp\<rparr>])
             | Responded err \<Rightarrow>
                 (case upsertBatches db s1 (drop batchSize payloads)
                         (if err = None then upserted + length chunk else upserted) of
                    (res, s2, later) \<Rightarrow>
                      (res, s2, \<lparr>site = Upsert, request = req, response = resp\<rparr> # later))))"
  by pat_completeness auto
termination
  by (relation "measure (\<lambda>(db, s, payloads, upserted). length payloads)")
     (auto simp: batchSize_def)

definition payloadsOf :: "(nat \<Rightarrow> int \<times> int) \<Rightarrow> raw_row list \<Rightarrow> js_object list" where
  "payloadsOf entropy json = map (\<lambda>(i, r). payloadOf (entropy i) r) (enumerate 0 json)"

definition importSelectedSheet ::
  "'s client \<Rightarrow> 's \<Rightarrow> (nat \<Rightarrow> int \<times> int) \<Rightarrow> raw_row list \<Rightarrow> outcome \<times> 's \<times> call list" where
  "importSelectedSheet db s entropy json =
     (if json = [] then (ImportError ''Selected sheet is empty.'', s, [])
      else case upsertBatches db s (payloadsOf entropy json) 0 of
          (Inl msg, s', calls) \<Rightarrow> (ImportError msg, s', calls)
        | (Inr upserted, s', calls) \<Rightarrow> (ImportMessage upserted, s', calls))"

section \<open>Order of the calls in a log\<close>

text \<open>
  \<open>sequenced\<close> reads a log of the spare-parts importer pairwise: a retry comes directly
  after a first attempt that failed, and a first attempt comes directly after a call that
  succeeded.
\<close>

fun sequenced :: "call list \<Rightarrow> bool" where
  "sequenced (c # d # cs) =
     ((if site d = Retry then site c = FirstAttempt \<and> failed (response c)
       else \<not> failed (response c)) \<and> sequenced (d # cs))"
| "sequenced cs = True"

definition firstAttempts :: "call list \<Rightarrow> request list" where
  "firstAttempts calls = map request (filter (\<lambda>c. site c = FirstAttempt) calls)"

text \<open>Rows for the worked examples: \<open>n\<close> copies of one prepared row, of one sheet row.\<close>

definition boltRows :: "nat \<Rightarrow> js_object list" where
  "boltRows n = replicate n [(''name'', JStr ''bolt'')]"

definition sheetRows :: "nat \<Rightarrow> raw_row list" where
  "sheetRows n = replicate n [(''Item_ID'', Some ''A-1''), (''Item_Name'', Some ''Bolt'')]"

section \<open>Upload API\<close>

text \<open>
  \<open>POST\<close> of the upload route reads \<open>scope\<close> and \<open>data\<close> from the request body and runs
  one loop over \<open>data\<close> for the scope, each of the same shape:
  \<^verbatim>\<open>for (let i = 0; i < data.length; i++) {
    const row = data[i];
    try {
      ...
      if (error) throw error;
      inserted++;            // or updated++
    } catch (err: any) {
      errors.push({ row: i + 1, field: 'general', message: err.message });
    }
  }\<close>
  \<open>data\<close> is an array of parsed JSON values (a body without such an array ends in the
  handler's outer \<open>catch\<close> with status 500 and is not modelled). A row is \<open>null\<close> or an object; reading a
  field of \<open>null\<close> raises a \<open>TypeError\<close>, which every loop catches like any other
  exception (a number, string or boolean as a row reads like an object without fields).

  The database answers a call with the row found (\<open>data\<close>) and an error, either of
  which may be \<open>null\<close>, or the call throws. The objects written are built from the row
  by field selection, \<open>parseInt\<close>, \<open>parseFloat\<close> and defaults; a request records the
  table and the row it is built from, since the content of the object plays no part in
  what is counted, and an exception raised while the object is built is part of the
  answer \<open>Rejected\<close>.
\<close>

datatype json_row = NullRow | Row js_object

definition truthyVal :: "jsval \<Rightarrow> bool" where
  "truthyVal v =
     (case v of
        JUndefined \<Rightarrow> False
      | JNull \<Rightarrow> False
      | JBool b \<Rightarrow> b
      | JNum q \<Rightarrow> q \<noteq> 0
      | JStr x \<Rightarrow> x \<noteq> []
      | JObject \<Rightarrow> True)"

datatype api_call =
    SelectBy string string jsval
  | UpdateWhere string js_object string jsval
  | InsertInto string js_object

datatype api_answer = Rejected string | Answered "js_object option" "db_error option"

type_synonym 's api = "'s \<Rightarrow> api_call \<Rightarrow> api_answer \<times> 's"

datatype row_result = DidInsert | DidUpdate | Caught string

datatype row_error = RowError nat string string

text \<open>
  The message of the \<open>TypeError\<close> for a \<open>null\<close> row, as Node words it; it names the
  field that the loop reads first.
\<close>

definition nullRowMessage :: "string \<Rightarrow> string" where
  "nullRowMessage f = ''Cannot read properties of null (reading '' @ [CHR 0x27] @ f @ [CHR 0x27] @ '')''"

text \<open>
  A write followed by \<open>if (error) throw error;\<close> and the increment of a counter: the
  row counts as \<open>counted\<close> when the call answers without an error, and is caught
  with the message of the exception or of the error otherwise.
\<close>

definition writeRow :: "'s api \<Rightarrow> 's \<Rightarrow> api_call \<Rightarrow> row_result \<Rightarrow> row_result \<times> 's" where
  "writeRow db s c counted =
     (case db s c of
        (Rejected m, s1) \<Rightarrow> (Caught m, s1)
      | (Answered d (Some e), s1) \<Rightarrow> (Caught (message e), s1)
      | (Answered d None, s1) \<Rightarrow> (counted, s1))"

text \<open>
  Scope \<open>warehouses\<close>: look the warehouse up by name, update it by the id found or insert
  it. The error of the lookup is not read.
\<close>

definition warehousesRow :: "'s api \<Rightarrow> 's \<Rightarrow> json_row \<Rightarrow> row_result \<times> 's" where
  "warehousesRow db s r =
     (case r of
        NullRow \<Rightarrow> (Caught (nullRowMessage ''name''), s)
      | Row row \<Rightarrow>
          (case db s (SelectBy ''warehouses'' ''name'' (getProp row ''name'')) of
             (Rejected m, s1) \<Rightarrow> (Caught m, s1)
           | (Answered (Some existing) e, s1) \<Rightarrow>
               writeRow db s1 (UpdateWhere ''warehouses'' row ''id'' (getProp existing ''id'')) DidUpdate
           | (Answered None e, s1) \<Rightarrow>
               writeRow db s1 (InsertInto ''warehouses'' row) DidInsert))"

text \<open>
  Scope \<open>inventory\<close>:
  \<^verbatim>\<open>if (!row.sku || !row.name || !row.warehouse_id) {
    throw new Error('Missing required fields: sku, name, warehouse_id');
  }
  const { data: existing } = await supabase.from('inventory_items')
    .select('sku').eq('sku', row.sku).maybeSingle();
  if (existing) { ... .update({...}).eq('sku', row.sku); if (error) throw error; updated++; }
  else { ... .insert({...}); if (error) throw error; inserted++; }\<close>
\<close>

definition inventoryRow :: "'s api \<Rightarrow> 's \<Rightarrow> json_row \<Rightarrow> row_result \<times> 's" where
  "inventoryRow db s r =
     (case r of
        NullRow \<Rightarrow> (Caught (nullRowMessage ''sku''), s)
      | Row row \<Rightarrow>
          if \<not> truthyVal (getProp row ''sku'') \<or> \<not> truthyVal (getProp row ''name'')
             \<or> \<not> truthyVal (getProp row ''warehouse_id'')
          then (Caught ''Missing required fields: sku, name, warehouse_id'', s)
          else
            (case db s (SelectBy ''inventory_items'' ''sku'' (getProp row ''sku'')) of
               (Rejected m, s1) \<Rightarrow> (Caught m, s1)
             | (Answered (Some existing) e, s1) \<Rightarrow>
                 writeRow db s1 (UpdateWhere ''inventory_items'' row ''sku'' (getProp row ''sku''))
                   DidUpdate
             | (Answered None e, s1) \<Rightarrow>
                 writeRow db s1 (InsertInto ''inventory_items'' row) DidInsert))"

text \<open>Scope \<open>transactions\<close>: four required fields, then an insert.\<close>

definition transactionsRow :: "'s api \<Rightarrow> 's \<Rightarrow> json_row \<Rightarrow> row_result \<times> 's" where
  "transactionsRow db s r =
     (case r of
        NullRow \<Rightarrow> (Caught (nullRowMessage ''warehouse_id''), s)
      | Row row \<Rightarrow>
          if \<not> truthyVal (getProp row ''warehouse_id'') \<or> \<not> truthyVal (getProp row ''type'')
             \<or> \<not> truthyVal (getProp row ''source_destination'') \<or> \<not> truthyVal (getProp row ''qty'')
          then (Caught ''Missing required fields'', s)
          else writeRow db s (InsertInto ''transactions'' row) DidInsert)"

text \<open>Scope \<open>spare_parts\<close>: as for warehouses, looked up by part number.\<close>

definition sparePartsRow :: "'s api \<Rightarrow> 's \<Rightarrow> json_row \<Rightarrow> row_result \<times> 's" where
  "sparePartsRow db s r =
     (case r of
        NullRow \<Rightarrow> (Caught (nullRowMessage ''part_number''), s)
      | Row row \<Rightarrow>
          (case db s (SelectBy ''spare_parts'' ''part_number'' (getProp row ''part_number'')) of
             (Rejected m, s1) \<Rightarrow> (Caught m, s1)
           | (Answered (Some existing) e, s1) \<Rightarrow>
               writeRow db s1 (UpdateWhere ''spare_parts'' row ''id'' (getProp existing ''id'')) DidUpdate
           | (Answered None e, s1) \<Rightarrow>
               writeRow db s1 (InsertInto ''spare_parts'' row) DidInsert))"

text \<open>Scope \<open>tasks\<close>: an insert.\<close>

definition tasksRow :: "'s api \<Rightarrow> 's \<Rightarrow> json_row \<Rightarrow> row_result \<times> 's" where
  "tasksRow db s r =
     (case r of
        NullRow \<Rightarrow> (Caught (nullRowMessage ''title''), s)
      | Row row \<Rightarrow> writeRow db s (InsertInto ''tasks'' row) DidInsert)"

text \<open>
  The loop, with the counters and the error list as they stand after \<open>i\<close> rows, and the
  handler:
  \<^verbatim>\<open>switch (scope) {
    case 'warehouses': ...  case 'inventory': ...  case 'transactions': ...
    case 'spare_parts': ...  case 'tasks': ...
    default:
      return NextResponse.json({ error: 'Invalid scope' }, { status: 400 });
  }
  return NextResponse.json({ inserted, updated, errors });\<close>
\<close>

fun processRows ::
  "('s \<Rightarrow> json_row \<Rightarrow> row_result \<times> 's) \<Rightarrow> 's \<Rightarrow> nat \<Rightarrow> json_row list
     \<Rightarrow> nat \<times> nat \<times> row_error list \<Rightarrow> (nat \<times> nat \<times> row_error list) \<times> 's" where
  "processRows step s i [] counters = (counters, s)"
| "processRows step s i (row # rest) (inserted, updated, errors) =
     (case step s row of
        (DidInsert, s1) \<Rightarrow> processRows step s1 (Suc i) rest (Suc inserted, updated, errors)
      | (DidUpdate, s1) \<Rightarrow> processRows step s1 (Suc i) rest (inserted, Suc updated, errors)
      | (Caught m, s1) \<Rightarrow>
          processRows step s1 (Suc i) rest
            (inserted, updated, errors @ [RowError (Suc i) ''general'' m]))"

definition scopeStep :: "'s api \<Rightarrow> string \<Rightarrow> ('s \<Rightarrow> json_row \<Rightarrow> row_result \<times> 's) option" where
  "scopeStep db scope =
     (if scope = ''warehouses'' then Some (warehousesRow db)
      else if scope = ''inventory'' then Some (inventoryRow db)
      else if scope = ''transactions'' then Some (transactionsRow db)
      else if scope = ''spare_parts'' then Some (sparePartsRow db)
      else if scope = ''tasks'' then Some (tasksRow db)
      else None)"

datatype http_response = Ok200 nat nat "row_error list" | BadRequest400 string

definition POST :: "'s api \<Rightarrow> 's \<Rightarrow> string \<Rightarrow> json_row list \<Rightarrow> http_response \<times> 's" where
  "POST db s scope data =
     (case scopeStep db scope of
        None \<Rightarrow> (BadRequest400 ''Invalid scope'', s)
      | Some step \<Rightarrow>
          (case processRows step s 0 data (0, 0, []) of
             ((inserted, updated, errors), s') \<Rightarrow> (Ok200 inserted updated errors, s')))"

text \<open>
  What a list of row results contributes: the error entries of the rows that were caught,
  each with the one-based index of its row (the first row of the list has index
  \<open>Suc i\<close>).
\<close>

fun errorsOf :: "nat \<Rightarrow> row_result list \<Rightarrow> row_error list" where
  "errorsOf i [] = []"
| "errorsOf i (r # rs) =
     (case r of Caught m \<Rightarrow> [RowError (Suc i) ''general'' m] | _ \<Rightarrow> []) @ errorsOf (Suc i) rs"

text \<open>
  The result of each row in turn, and the state the rows leave: the step is applied to a
  row in the state left by the rows before it.
\<close>

fun rowResults :: "('s \<Rightarrow> json_row \<Rightarrow> row_result \<times> 's) \<Rightarrow> 's \<Rightarrow> json_row list \<Rightarrow> row_result list" where
  "rowResults step s [] = []"
| "rowResults step s (row # rest) = fst (step s row) # rowResults step (snd (step s row)) rest"

fun stateAfter :: "('s \<Rightarrow> json_row \<Rightarrow> row_result \<times> 's) \<Rightarrow> 's \<Rightarrow> json_row list \<Rightarrow> 's" where
  "stateAfter step s [] = s"
| "stateAfter step s (row # rest) = stateAfter step (snd (step s row)) rest"

text \<open>
  A database for the worked examples: it knows the rows whose key is \<open>known\<close>, accepts
  every write but rejects those for the row named \<open>bad\<close>.
\<close>

definition exampleApi :: "unit api" where
  "exampleApi s c =
     (case c of
        SelectBy t col v \<Rightarrow>
          if v = JStr ''known'' then (Answered (Some [(''id'', JStr ''id-1'')]) None, s)
          else (Answered None None, s)
      | UpdateWhere t row col v \<Rightarrow> (Answered None None, s)
      | InsertInto t row \<Rightarrow>
          if getProp row ''name'' = JStr ''bad''
          then (Answered None (Some duplicateKeyError), s)
          else (Answered None None, s))"

section \<open>Staging of imported inventory (settings page)\<close>

text \<open>
  \<^verbatim>\<open>if (inventory.length) {
    const existing = read<InventoryItem>(KEY_INVENTORY);
    // keying by sku + warehouseId for uniqueness
    const byKey = new Map(existing.map((e) => [`${e.sku}::${e.warehouseId||''}`, e]));
    for (const it of inventory) {
      const k = `${it.sku}::${it.warehouseId||''}`;
      const prev = byKey.get(k);
      if (prev) byKey.set(k, { ...prev, ...it });
      else byKey.set(k, it);
    }
    write(KEY_INVENTORY, Array.from(byKey.values()));
  }\<close>
  A \<open>Map\<close> is the list of its entries in insertion order: setting a key that is there
  replaces the value in place, setting a new key appends. An object spread copies the
  own entries of its operand one after the other in the same way, whatever their values,
  \<open>undefined\<close> and \<open>null\<close> included. The text of a number in a template string is a
  parameter (\<open>numText\<close>).
\<close>

fun mapSet :: "string \<Rightarrow> 'v \<Rightarrow> (string \<times> 'v) list \<Rightarrow> (string \<times> 'v) list" where
  "mapSet k v [] = [(k, v)]"
| "mapSet k v ((k', v') # m) = (if k' = k then (k, v) # m else (k', v') # mapSet k v m)"

definition spread :: "js_object \<Rightarrow> js_object \<Rightarrow> js_object" where
  "spread prev it = foldl (\<lambda>obj (k, v). mapSet k v obj) prev it"

definition jsString :: "(rat \<Rightarrow> string) \<Rightarrow> jsval \<Rightarrow> string" where
  "jsString numText v =
     (case v of
        JUndefined \<Rightarrow> ''undefined''
      | JNull \<Rightarrow> ''null''
      | JBool b \<Rightarrow> (if b then ''true'' else ''false'')
      | JNum q \<Rightarrow> numText q
      | JStr x \<Rightarrow> x
      | JObject \<Rightarrow> ''[object Object]'')"

definition keyOf :: "(rat \<Rightarrow> string) \<Rightarrow> js_object \<Rightarrow> string" where
  "keyOf numText e =
     jsString numText (getProp e ''sku'') @ ''::''
       @ (if truthyVal (getProp e ''warehouseId'') then jsString numText (getProp e ''warehouseId'')
          else [])"

definition stageItem ::
  "(rat \<Rightarrow> string) \<Rightarrow> (string \<times> js_object) list \<Rightarrow> js_object \<Rightarrow> (string \<times> js_object) list" where
  "stageItem numText byKey it =
     (let k = keyOf numText it in
      case map_of byKey k of
        Some prev \<Rightarrow> mapSet k (spread prev it) byKey
      | None \<Rightarrow> mapSet k it byKey)"

definition mergeInventory ::
  "(rat \<Rightarrow> string) \<Rightarrow> js_object list \<Rightarrow> js_object list \<Rightarrow> js_object list" where
  "mergeInventory numText existing inventory =
     map snd (foldl (stageItem numText)
                (foldl (\<lambda>m e. mapSet (keyOf numText e) e m) [] existing) inventory)"

text \<open>
  The records of the worked example: the staged record has a rack, the incoming record
  of the same item and warehouse was read from a row without one, so
  \<open>mapInventoryRow\<close> gave it \<open>rackId: undefined\<close>.
\<close>

definition stagedBolt :: js_object where
  "stagedBolt =
     [(''sku'', JStr ''SKU-1''), (''name'', JStr ''Bolt''), (''category'', JStr ''''),
      (''warehouseId'', JStr ''W1''), (''rackId'', JStr ''R1''), (''qty'', JNum 3),
      (''reorderThreshold'', JNum 0), (''unitPrice'', JNum 2)]"

definition incomingBolt :: js_object where
  "incomingBolt =
     [(''sku'', JStr ''SKU-1''), (''name'', JStr ''Bolt''), (''category'', JStr ''''),
      (''warehouseId'', JStr ''W1''), (''rackId'', JUndefined), (''qty'', JNum 5),
      (''reorderThreshold'', JNum 0), (''unitPrice'', JNum 0)]"

section \<open>The state of the database along an import\<close>

text \<open>
  The client of the importers is instrumented: \<open>traced db\<close> answers as \<open>db\<close> does and
  appends to a journal, for every call it receives, the state the call was made in, the
  request, the answer and the state the call left. An importer run on \<open>traced db\<close> from
  an empty journal therefore writes down the state before and after each of its calls.
\<close>

record 's logged =
  state_before :: 's
  asked :: request
  answered :: response
  state_after :: 's

fun traced :: "'s client \<Rightarrow> ('s \<times> 's logged list) client" where
  "traced db (s, journal) req =
     (case db s req of
        (resp, s1) \<Rightarrow>
          (resp, (s1, journal @ [\<lparr>state_before = s, asked = req, answered = resp, state_after = s1\<rparr>])))"

text \<open>
  \<open>chained s es\<close>: the first entry starts in \<open>s\<close> and every other entry starts in the
  state its predecessor ended in. \<open>endState s es\<close> is the state after the last entry.
\<close>

fun chained :: "'s \<Rightarrow> 's logged list \<Rightarrow> bool" where
  "chained s [] = True"
| "chained s (e # es) = (state_before e = s \<and> chained (state_after e) es)"

fun endState :: "'s \<Rightarrow> 's logged list \<Rightarrow> 's" where
  "endState s [] = s"
| "endState s (e # es) = endState (state_after e) es"

text \<open>
  \<open>linked db s t es cs\<close>: the journal \<open>es\<close> leads from \<open>s\<close> to \<open>t\<close> without a gap, its
  entries are the calls \<open>cs\<close> in the same order, and every entry is a call of \<open>db\<close>.
\<close>

definition linked :: "'s client \<Rightarrow> 's \<Rightarrow> 's \<Rightarrow> 's logged list \<Rightarrow> call list \<Rightarrow> bool" where
  "linked db s t es cs =
     (chained s es \<and> endState s es = t
      \<and> map (\<lambda>e. (asked e, answered e)) es = map (\<lambda>c. (request c, response c)) cs
      \<and> list_all (\<lambda>e. db (state_before e) (asked e) = (answered e, state_after e)) es)"

section \<open>Properties of the header normalizer\<close>

lemma lowerChar_alnum: "isAlnumLower c \<Longrightarrow> lowerChar c = c"
  by (auto simp: isAlnumLower_def isLower_def isDigit_def lowerChar_def isUpper_def)

lemma notSpace_alnum: "isAlnumLower c \<Longrightarrow> \<not> isSpace c"
  by (auto simp: isAlnumLower_def isLower_def isDigit_def isSpace_def)

lemma tolerant_chars: "c \<in> set (tolerant k) \<Longrightarrow> isAlnumLower c"
  by (simp add: tolerant_def)

lemma tolerant_fixed: "list_all isAlnumLower s \<Longrightarrow> tolerant s = s"
proof (induction s)
  case Nil
  show ?case by (simp add: tolerant_def toLowerCase_def)
next
  case (Cons c s)
  then have c: "isAlnumLower c" and s: "tolerant s = s" by simp_all
  from c have "lowerChar c = c" "\<not> isSpace c"
    by (simp_all add: lowerChar_alnum notSpace_alnum)
  with c s show ?case by (simp add: tolerant_def toLowerCase_def)
qed

lemma alnum_table:
  "\<forall>n\<in>{97..<123} \<union> {48..<58}.
     char_of (n::nat) \<in> set ''abcdefghijklmnopqrstuvwxyz0123456789''"
  by code_simp

lemma alnum_alphabet:
  assumes "isAlnumLower c"
  shows "c \<in> set ''abcdefghijklmnopqrstuvwxyz0123456789''"
proof -
  from assms have "(of_char c :: nat) \<in> {97..<123} \<union> {48..<58}"
    by (simp add: isAlnumLower_def isLower_def isDigit_def) arith
  with alnum_table
  have "char_of (of_char c :: nat) \<in> set ''abcdefghijklmnopqrstuvwxyz0123456789''"
    by blast
  then show ?thesis by (simp del: set_simps)
qed

text \<open>
  C8. Normalizing a header twice gives the same key as normalizing it once, every
  character of a normalized key is one of \<open>a\<close>..\<open>z\<close> or \<open>0\<close>..\<open>9\<close>, and the empty header
  maps to the empty key.
\<close>

theorem tolerant_idempotent:
  "tolerant (tolerant H) = tolerant H
   \<and> list_all (\<lambda>c. c \<in> set ''abcdefghijklmnopqrstuvwxyz0123456789'') (tolerant H)
   \<and> tolerant [] = []"
proof -
  have all: "list_all isAlnumLower (tolerant H)"
    by (simp add: list_all_iff tolerant_chars)
  have "list_all (\<lambda>c. c \<in> set ''abcdefghijklmnopqrstuvwxyz0123456789'') (tolerant H)"
    unfolding list_all_iff using tolerant_chars alnum_alphabet by blast
  moreover have "tolerant [] = []"
    by (simp add: tolerant_def toLowerCase_def)
  ultimately show ?thesis
    using tolerant_fixed [OF all] by blast
qed

theorem tolerant_idempotent_witness:
  "tolerant (tolerant ''Stock On-Hand (Qty)'') = tolerant ''Stock On-Hand (Qty)''
   \<and> tolerant ''Stock On-Hand (Qty)'' = ''stockonhandqty''"
proof -
  have e: "tolerant ''Stock On-Hand (Qty)'' = ''stockonhandqty''"
    by code_simp
  from tolerant_idempotent [of "''Stock On-Hand (Qty)''"]
  have "tolerant (tolerant ''Stock On-Hand (Qty)'') = tolerant ''Stock On-Hand (Qty)''"
    by (rule conjunct1)
  with e show ?thesis by (rule_tac conjI)
qed

section \<open>Properties of the field mapper\<close>

lemma indexOf_find:
  "(case indexOf (map f hs) x of Some i \<Rightarrow> Some (hs ! i) | None \<Rightarrow> None) = find (\<lambda>h. f h = x) hs"
  by (induction hs) (auto split: option.splits)

lemma indexOf_None: "indexOf xs x = None \<longleftrightarrow> x \<notin> set xs"
  by (induction xs) auto

lemma candidateLoop_find:
  "candidateLoop hs (map f hs) cands =
     (case find (\<lambda>c. \<exists>h \<in> set hs. f h = toLowerCase c) cands of
        Some c \<Rightarrow> find (\<lambda>h. f h = toLowerCase c) hs
      | None \<Rightarrow> None)"
proof (induction cands)
  case Nil
  show ?case by simp
next
  case (Cons c cs)
  show ?case
  proof (cases "indexOf (map f hs) (toLowerCase c)")
    case None
    then have "\<not> (\<exists>h \<in> set hs. f h = toLowerCase c)"
      by (force simp: indexOf_None)
    with None Cons show ?thesis by simp
  next
    case (Some i)
    then have "toLowerCase c \<in> set (map f hs)"
      using indexOf_None [of "map f hs" "toLowerCase c"] by auto
    then have ex: "\<exists>h \<in> set hs. f h = toLowerCase c" by auto
    from Some indexOf_find [where f = f and hs = hs and x = "toLowerCase c"]
    have "find (\<lambda>h. f h = toLowerCase c) hs = Some (hs ! i)" by simp
    with Some ex show ?thesis by simp
  qed
qed

lemma substringLoop_find:
  "substringLoop hs (map f hs) frag = find (\<lambda>h. str_includes (f h) frag) hs"
  by (induction hs) auto

lemma find_alias_header:
  assumes "find (\<lambda>c. \<exists>h \<in> set hs. f h = toLowerCase c) cands = Some c"
  shows "\<exists>h. find (\<lambda>h. f h = toLowerCase c) hs = Some h"
proof -
  from assms have "\<exists>h \<in> set hs. f h = toLowerCase c"
    by (auto simp: find_Some_iff)
  then have "find (\<lambda>h. f h = toLowerCase c) hs \<noteq> None"
    by (auto simp: find_None_iff)
  then show ?thesis by auto
qed

lemma findHeaderForField_resolves:
  assumes "field \<notin> set inheritedKeys"
  shows "findHeaderForField headers field = Inr (resolve_amended (aliasesOf field) headers field)"
proof -
  from assms have c: "candidatesOf field = Inr (aliasesOf field)"
    by (simp add: candidatesOf_def aliasesOf_def split: option.splits)
  show ?thesis
    unfolding findHeaderForField_def resolve_amended_def c Let_def
    using find_alias_header [where f = "\<lambda>h. trim (toLowerCase h)" and hs = headers
        and cands = "aliasesOf field"]
    by (auto simp add: candidateLoop_find substringLoop_find split: option.splits)
qed


lemma lowerChar_idem: "lowerChar (lowerChar c) = lowerChar c"
proof (cases "isUpper c")
  case True
  then have "\<not> isUpper (char_of ((of_char c :: nat) + 32))"
    by (simp add: isUpper_def)
  with True show ?thesis by (simp add: lowerChar_def)
next
  case False
  then show ?thesis by (simp add: lowerChar_def)
qed

lemma toLowerCase_idem: "toLowerCase (toLowerCase s) = toLowerCase s"
  by (induction s) (simp_all add: toLowerCase_def lowerChar_idem)

lemma tolerant_toLowerCase: "tolerant (toLowerCase s) = tolerant s"
  by (simp add: tolerant_def toLowerCase_idem)

lemma tolerant_rev: "tolerant (rev s) = rev (tolerant s)"
  by (simp add: tolerant_def toLowerCase_def rev_map rev_filter)

lemma isSpace_lowerChar: "isSpace c \<Longrightarrow> isSpace (lowerChar c)"
  by (auto simp: isSpace_def lowerChar_def isUpper_def)

lemma tolerant_dropWhile: "tolerant (dropWhile isSpace s) = tolerant s"
  by (induction s) (auto simp: tolerant_def toLowerCase_def isSpace_lowerChar)

lemma tolerant_trim: "tolerant (trim s) = tolerant s"
  by (simp add: trim_def tolerant_rev tolerant_dropWhile)

lemma tolerant_match:
  assumes "trim (toLowerCase h) = toLowerCase c"
  shows "tolerant h = tolerant c"
proof -
  have "tolerant h = tolerant (trim (toLowerCase h))"
    by (simp add: tolerant_trim tolerant_toLowerCase)
  also have "\<dots> = tolerant c"
    by (simp add: assms tolerant_toLowerCase)
  finally show ?thesis .
qed

lemma aliases_trimmed:
  "list_all (\<lambda>(f, cs). list_all (\<lambda>c. trim (toLowerCase c) = toLowerCase c) cs) expectedHeaders"
  by code_simp

lemma alias_trimmed:
  assumes "a \<in> set (aliasesOf field)"
  shows "trim (toLowerCase a) = toLowerCase a"
proof -
  from assms obtain cs where m: "map_of expectedHeaders field = Some cs" and a: "a \<in> set cs"
    by (cases "map_of expectedHeaders field") (auto simp: aliasesOf_def)
  from m have "(field, cs) \<in> set expectedHeaders" by (rule map_of_SomeD)
  with aliases_trimmed a show ?thesis
    by (auto simp: list_all_iff)
qed

lemma alias_resolves:
  assumes c: "c \<in> set (aliasesOf field)" and h: "h \<in> set headers"
    and m: "trim (toLowerCase h) = toLowerCase c"
  shows "\<exists>h' c'. findHeaderForField headers field = Inr (Some h') \<and> h' \<in> set headers
           \<and> c' \<in> set (aliasesOf field) \<and> trim (toLowerCase h') = toLowerCase c'"
proof -
  let ?P = "\<lambda>c. \<exists>h \<in> set headers. trim (toLowerCase h) = toLowerCase c"
  from c have cand: "candidatesOf field = Inr (aliasesOf field)"
    by (auto simp: candidatesOf_def aliasesOf_def split: option.splits)
  from c h m have "find ?P (aliasesOf field) \<noteq> None"
    by (auto simp: find_None_iff)
  then obtain c' where f: "find ?P (aliasesOf field) = Some c'" by auto
  then have c': "c' \<in> set (aliasesOf field)"
    by (auto simp: find_Some_iff)
  from find_alias_header [OF f] obtain h'
    where fh: "find (\<lambda>h. trim (toLowerCase h) = toLowerCase c') headers = Some h'" by auto
  then have h': "h' \<in> set headers" "trim (toLowerCase h') = toLowerCase c'"
    by (auto simp: find_Some_iff)
  have "findHeaderForField headers field = Inr (Some h')"
    unfolding findHeaderForField_def cand Let_def
    by (simp add: candidateLoop_find f fh)
  with c' h' show ?thesis by blast
qed

text \<open>
  C4. Whenever a row has a header that equals one of the aliases listed for a field once
  the header is lower-cased and trimmed and the alias is lower-cased, the mapper returns
  one of the row's headers, that header equals one of the field's aliases in the same
  way, and so its normalized form is the normalized form of that alias. (An alias listed
  in the table, taken as a header, is such a header: lemma \<open>alias_trimmed\<close>.)
\<close>

theorem findHeaderForField_alias:
  assumes "c \<in> set (aliasesOf field)" and "h \<in> set headers"
    and "trim (toLowerCase h) = toLowerCase c"
  shows "\<exists>h' c'. findHeaderForField headers field = Inr (Some h') \<and> h' \<in> set headers
           \<and> c' \<in> set (aliasesOf field) \<and> trim (toLowerCase h') = toLowerCase c'
           \<and> tolerant h' = tolerant c'"
proof -
  from alias_resolves [OF assms]
  obtain h' c' where "findHeaderForField headers field = Inr (Some h')" "h' \<in> set headers"
    "c' \<in> set (aliasesOf field)" "trim (toLowerCase h') = toLowerCase c'"
    by blast
  then show ?thesis using tolerant_match by blast
qed

theorem findHeaderForField_alias_witness:
  "''sku'' \<in> set (aliasesOf ''part_number'')
   \<and> '' SKU '' \<in> set [''Part Name'', '' SKU '', ''Reorder Level'']
   \<and> trim (toLowerCase '' SKU '') = toLowerCase ''sku''
   \<and> (\<exists>h' c'. findHeaderForField [''Part Name'', '' SKU '', ''Reorder Level''] ''part_number''
                  = Inr (Some h')
         \<and> h' \<in> set [''Part Name'', '' SKU '', ''Reorder Level'']
         \<and> c' \<in> set (aliasesOf ''part_number'') \<and> trim (toLowerCase h') = toLowerCase c'
         \<and> tolerant h' = tolerant c')
   \<and> findHeaderForField [''Part Name'', '' SKU '', ''Reorder Level''] ''part_number''
       = Inr (Some '' SKU '')
   \<and> findHeaderForField [''Part Name'', '' SKU '', ''Reorder Level''] ''reorder_threshold''
       = Inr (Some ''Reorder Level'')"
proof -
  have a: "''sku'' \<in> set (aliasesOf ''part_number'')" by code_simp
  have b: "'' SKU '' \<in> set [''Part Name'', '' SKU '', ''Reorder Level'']" by simp
  have c: "trim (toLowerCase '' SKU '') = toLowerCase ''sku''" by code_simp
  have e: "findHeaderForField [''Part Name'', '' SKU '', ''Reorder Level''] ''part_number''
       = Inr (Some '' SKU '')" by code_simp
  have f: "findHeaderForField [''Part Name'', '' SKU '', ''Reorder Level''] ''reorder_threshold''
       = Inr (Some ''Reorder Level'')" by code_simp
  note t = findHeaderForField_alias [OF a b c]
  from a b c t e f show ?thesis by (intro conjI)
qed

theorem findHeaderForField_normalized_counterexample:
  "''partno'' \<in> set (aliasesOf ''part_number'')
   \<and> tolerant ''Part-No'' = tolerant ''partno''
   \<and> findHeaderForField [''Part-No''] ''part_number'' = Inr None"
  by code_simp

text \<open>
  C7. The mapper follows the three steps in priority order, a candidate alias being
  compared (lower-cased) with the lower-cased and trimmed header, and the substring step
  searching the lower-cased and trimmed header; with no match it answers null. It raises
  nothing for any field name that is not an inherited property name of the alias table.
\<close>

theorem findHeaderForField_priority:
  assumes "field \<notin> set inheritedKeys"
  shows "findHeaderForField headers field = Inr (resolve_amended (aliasesOf field) headers field)"
  using assms by (rule findHeaderForField_resolves)

theorem findHeaderForField_priority_witness:
  "''part_number'' \<notin> set inheritedKeys
   \<and> findHeaderForField [''Part Name'', '' SKU''] ''part_number''
       = Inr (resolve_amended (aliasesOf ''part_number'') [''Part Name'', '' SKU''] ''part_number'')
   \<and> resolve_amended (aliasesOf ''part_number'') [''Part Name'', '' SKU''] ''part_number''
       = Some '' SKU''
   \<and> resolve_amended (aliasesOf ''name'') [''Part Name'', '' SKU''] ''name'' = Some ''Part Name''
   \<and> resolve_amended (aliasesOf ''category'') [''Part Name'', '' SKU''] ''category'' = None"
proof -
  have a: "''part_number'' \<notin> set inheritedKeys" by code_simp
  have b: "resolve_amended (aliasesOf ''part_number'') [''Part Name'', '' SKU''] ''part_number''
       = Some '' SKU''" by code_simp
  have c: "resolve_amended (aliasesOf ''name'') [''Part Name'', '' SKU''] ''name'' = Some ''Part Name''"
    by code_simp
  have d: "resolve_amended (aliasesOf ''category'') [''Part Name'', '' SKU''] ''category'' = None"
    by code_simp
  note t = findHeaderForField_priority [OF a, of "[''Part Name'', '' SKU'']"]
  from a t b c d show ?thesis by (intro conjI)
qed

theorem findHeaderForField_claimed_counterexample:
  "findHeaderForField ['' SKU''] ''part_number'' = Inr (Some '' SKU'')
   \<and> resolve_claimed (aliasesOf ''part_number'') ['' SKU''] ''part_number'' = None
   \<and> findHeaderForField ['' SKU''] ''constructor'' = Inl TypeError"
  by code_simp

section \<open>Properties of the numeric coercion\<close>

lemma doubleOverflow_value: "doubleOverflow = 2 ^ 1024 - 2 ^ 970"
  by (simp add: doubleOverflow_def)

lemma no_numeric_strip:
  assumes "\<forall>c \<in> set s. \<not> isNumericChar c"
  shows "stripNonNumeric s = []"
  using assms by (simp add: stripNonNumeric_def filter_empty_conv)

lemma safeNum_null: "safeNum None = 0"
  by (simp add: safeNum_def stripNonNumeric_def jsNumber_def)

lemma coerceThreshold_no_numeric:
  assumes "\<forall>c \<in> set s. \<not> isNumericChar c"
  shows "coerceThreshold (Some s) = (if s = [] then None else Some 0)"
  by (simp add: coerceThreshold_def no_numeric_strip [OF assms] jsNumber_def)

text \<open>
  On a cell without a digit, a point or a minus sign the inventory importer's \<open>safeNum\<close>
  returns its default \<open>0\<close>.
\<close>

theorem safeNum_default:
  assumes "\<forall>c \<in> set s. \<not> isNumericChar c"
  shows "safeNum (Some s) = 0"
  by (simp add: safeNum_def no_numeric_strip [OF assms] jsNumber_def)

theorem safeNum_default_witness:
  "list_all (\<lambda>c. \<not> isNumericChar c) ''x'' \<and> safeNum (Some ''x'') = 0
   \<and> safeNum (Some ''12 units'') = 12"
proof -
  have a: "\<forall>c \<in> set ''x''. \<not> isNumericChar c" by code_simp
  have b: "safeNum (Some ''12 units'') = 12" by code_simp
  from a have c: "list_all (\<lambda>c. \<not> isNumericChar c) ''x''" by (simp add: list_all_iff)
  note t = safeNum_default [OF a]
  from c t b show ?thesis by (intro conjI)
qed

text \<open>
  C5. A spare-parts row whose reorder-level cell reads \<open>N/A\<close> holds no digit, point or
  minus sign, yet the prepared row carries the number \<open>0\<close> and not \<open>null\<close>: the cell is
  not the empty string, what is left of it after stripping is, and \<open>Number('')\<close> is \<open>0\<close>,
  a finite number. Only the empty cell and the \<open>null\<close> cell give \<open>null\<close>.
\<close>

theorem reorder_threshold_not_null:
  "reorder_threshold [''Part No'', ''Reorder Level'']
      [(''Part No'', Some ''P-1''), (''Reorder Level'', Some ''N/A'')] = Inr (Some 0)
   \<and> list_all (\<lambda>c. \<not> isNumericChar c) ''N/A''
   \<and> coerceThreshold (Some []) = None
   \<and> coerceThreshold None = None"
  by code_simp

section \<open>Properties of the schema-drift retry\<close>

lemma deleteKey_twice:
  "deleteKey a (deleteKey b (deleteKey c r)) = filter (\<lambda>(k, v). k \<notin> {c, b, a}) r"
  by (induction r) (auto simp: deleteKey_def)

lemma cleanRow_filter:
  "cleanRow col r = filter (\<lambda>(k, v). k \<notin> {col, camelToSnake col, snakeToCamel col}) r"
  by (simp add: cleanRow_def deleteKey_twice)

lemma cleanRow_map:
  "map (cleanRow col) batch
     = map (filter (\<lambda>(k, v). k \<notin> {col, camelToSnake col, snakeToCamel col})) batch"
  by (simp add: cleanRow_filter)

text \<open>
  C3. Let the first insert of a batch answer \<open>r1\<close>. If \<open>r1\<close> carries no error, or the call
  threw, or no column name can be read off the error message, the routine makes no
  further call and returns \<open>r1\<close> itself. If a column name \<open>col\<close> is read off the message,
  the routine makes exactly one more call, with every row stripped of the entries named
  \<open>col\<close>, \<open>camelToSnake col\<close> and \<open>snakeToCamel col\<close> and otherwise unchanged, and returns
  the answer of that second call, whether it is a success or a failure. It never makes a
  third call.
\<close>

theorem tryInsert_recovery:
  assumes "db s (InsertRows table batch) = (r1, s1)"
  shows
    "(r1 = Responded None \<or> (\<exists>m. r1 = Threw m)
        \<or> (\<exists>e. r1 = Responded (Some e) \<and> missingMatch (message e) = None)
      \<longrightarrow> tryInsertWithMissingColumnRecovery db s table batch
            = (r1, s1, [\<lparr>site = FirstAttempt, request = InsertRows table batch, response = r1\<rparr>]))
     \<and> (\<forall>e col r2 s2.
           r1 = Responded (Some e) \<and> missingMatch (message e) = Some col
           \<and> db s1 (InsertRows table
                 (map (filter (\<lambda>(k, v). k \<notin> {col, camelToSnake col, snakeToCamel col})) batch))
               = (r2, s2)
         \<longrightarrow> tryInsertWithMissingColumnRecovery db s table batch
              = (r2, s2,
                 [\<lparr>site = FirstAttempt, request = InsertRows table batch, response = r1\<rparr>,
                  \<lparr>site = Retry,
                   request = InsertRows table
                     (map (filter (\<lambda>(k, v). k \<notin> {col, camelToSnake col, snakeToCamel col})) batch),
                   response = r2\<rparr>]))"
  using assms
  by (auto simp: tryInsertWithMissingColumnRecovery_def cleanRow_map)

theorem tryInsert_recovery_witness:
  "scripted [Responded (Some missingColumnError), Responded None] 0
       (InsertRows ''spare_parts'' [[(''name'', JStr ''bolt''), (''rack_id'', JStr ''R1'')]])
     = (Responded (Some missingColumnError), 1)
   \<and> missingMatch (message missingColumnError) = Some ''rack_id''
   \<and> tryInsertWithMissingColumnRecovery
         (scripted [Responded (Some missingColumnError), Responded None]) 0 ''spare_parts''
         [[(''name'', JStr ''bolt''), (''rack_id'', JStr ''R1'')]]
     = (Responded None, 2,
        [\<lparr>site = FirstAttempt,
          request = InsertRows ''spare_parts'' [[(''name'', JStr ''bolt''), (''rack_id'', JStr ''R1'')]],
          response = Responded (Some missingColumnError)\<rparr>,
         \<lparr>site = Retry, request = InsertRows ''spare_parts'' [[(''name'', JStr ''bolt'')]],
          response = Responded None\<rparr>])"
proof -
  let ?db = "scripted [Responded (Some missingColumnError), Responded None]"
  let ?batch = "[[(''name'', JStr ''bolt''), (''rack_id'', JStr ''R1'')]]"
  have a: "?db 0 (InsertRows ''spare_parts'' ?batch) = (Responded (Some missingColumnError), 1)"
    by (simp add: scripted_def)
  have b: "missingMatch (message missingColumnError) = Some ''rack_id''"
    by code_simp
  have c: "map (filter (\<lambda>(k, v). k \<notin> {''rack_id'', camelToSnake ''rack_id'', snakeToCamel ''rack_id''}))
             ?batch = [[(''name'', JStr ''bolt'')]]"
    by code_simp
  have d: "?db 1 (InsertRows ''spare_parts'' [[(''name'', JStr ''bolt'')]]) = (Responded None, 2)"
    by (simp add: scripted_def)
  have d': "?db 1 (InsertRows ''spare_parts''
      (map (filter (\<lambda>(k, v). k \<notin> {''rack_id'', camelToSnake ''rack_id'', snakeToCamel ''rack_id''}))
         ?batch)) = (Responded None, 2)"
    unfolding c by (rule d)
  note t = tryInsert_recovery [where db = "?db" and s = 0 and table = "''spare_parts''"
      and batch = "?batch", OF a]
  from t have "tryInsertWithMissingColumnRecovery ?db 0 ''spare_parts'' ?batch
     = (Responded None, 2,
        [\<lparr>site = FirstAttempt, request = InsertRows ''spare_parts'' ?batch,
          response = Responded (Some missingColumnError)\<rparr>,
         \<lparr>site = Retry, request = InsertRows ''spare_parts''
            (map (filter (\<lambda>(k, v). k \<notin> {''rack_id'', camelToSnake ''rack_id'', snakeToCamel ''rack_id''}))
               ?batch),
          response = Responded None\<rparr>])"
    using b d' by blast
  then have "tryInsertWithMissingColumnRecovery ?db 0 ''spare_parts'' ?batch
     = (Responded None, 2,
        [\<lparr>site = FirstAttempt, request = InsertRows ''spare_parts'' ?batch,
          response = Responded (Some missingColumnError)\<rparr>,
         \<lparr>site = Retry, request = InsertRows ''spare_parts'' [[(''name'', JStr ''bolt'')]],
          response = Responded None\<rparr>])"
    unfolding c .
  with a b show ?thesis by (intro conjI)
qed

theorem tryInsert_original_failure_counterexample:
  "fst (scripted [Responded (Some missingColumnError), Responded (Some duplicateKeyError)] 0
         (InsertRows ''spare_parts'' [[(''name'', JStr ''bolt''), (''rack_id'', JStr ''R1'')]]))
     = Responded (Some missingColumnError)
   \<and> fst (tryInsertWithMissingColumnRecovery
         (scripted [Responded (Some missingColumnError), Responded (Some duplicateKeyError)])
         0 ''spare_parts'' [[(''name'', JStr ''bolt''), (''rack_id'', JStr ''R1'')]])
     = Responded (Some duplicateKeyError)
   \<and> message duplicateKeyError \<noteq> message missingColumnError"
  by code_simp

section \<open>Properties of the batch loops\<close>

declare insertBatches.simps [simp del]
declare upsertBatches.simps [simp del]
declare chunks.simps [simp del]

lemma chunks_Nil: "chunks n [] = []"
  by (simp add: chunks.simps)

lemma chunks_step: "0 < n \<Longrightarrow> xs \<noteq> [] \<Longrightarrow> chunks n xs = take n xs # chunks n (drop n xs)"
  by (subst chunks.simps) simp

lemma concat_chunks: "0 < n \<Longrightarrow> concat (chunks n xs) = xs"
proof (induction n xs rule: chunks.induct)
  case (1 n xs)
  show ?case
  proof (cases "xs = []")
    case True
    then show ?thesis by (simp add: chunks_Nil)
  next
    case False
    with 1 show ?thesis by (simp add: chunks_step)
  qed
qed

lemma tryInsert_calls:
  assumes "tryInsertWithMissingColumnRecovery db s table batch = (resp, s1, calls)"
  shows "calls \<noteq> [] \<and> response (last calls) = resp
         \<and> firstAttempts calls = [InsertRows table batch]
         \<and> site (hd calls) = FirstAttempt
         \<and> sequenced calls
         \<and> (\<forall>c \<in> set (butlast calls). failed (response c))"
  using assms
  by (auto simp: tryInsertWithMissingColumnRecovery_def firstAttempts_def failed_def Let_def
      split: prod.splits response.splits option.splits)

lemma insertBatches_Nil: "insertBatches db s [] = (None, s, [])"
  by (simp add: insertBatches.simps)

lemma insertBatches_fail:
  assumes "rows \<noteq> []"
    and "tryInsertWithMissingColumnRecovery db s ''spare_parts'' (take BATCH_SIZE rows) = (resp, s1, calls)"
    and "failed resp"
  shows "insertBatches db s rows = (Some (surfaced resp), s1, calls)"
  using assms by (subst insertBatches.simps) simp

lemma insertBatches_ok:
  assumes "rows \<noteq> []"
    and "tryInsertWithMissingColumnRecovery db s ''spare_parts'' (take BATCH_SIZE rows) = (resp, s1, calls)"
    and "\<not> failed resp"
    and "insertBatches db s1 (drop BATCH_SIZE rows) = (res, s2, later)"
  shows "insertBatches db s rows = (res, s2, calls @ later)"
  using assms by (subst insertBatches.simps) simp

lemma insertBatches_append:
  assumes "length a = BATCH_SIZE * j"
    and "insertBatches db s a = (None, sa, la)"
    and "insertBatches db sa b = (res, s', lb)"
  shows "insertBatches db s (a @ b) = (res, s', la @ lb)"
  using assms
proof (induction j arbitrary: a s la)
  case 0
  then have "a = []" by simp
  with 0 show ?case by (simp add: insertBatches_Nil)
next
  case (Suc j)
  then have len: "BATCH_SIZE \<le> length a" and ne: "a \<noteq> []"
    by (auto simp: BATCH_SIZE_def)
  obtain resp s1 calls
    where t: "tryInsertWithMissingColumnRecovery db s ''spare_parts'' (take BATCH_SIZE a)
                = (resp, s1, calls)"
    by (cases "tryInsertWithMissingColumnRecovery db s ''spare_parts'' (take BATCH_SIZE a)") auto
  have ok: "\<not> failed resp"
  proof
    assume "failed resp"
    from insertBatches_fail [OF ne t this] Suc.prems(2) show False by simp
  qed
  obtain r2 s2 later where rest: "insertBatches db s1 (drop BATCH_SIZE a) = (r2, s2, later)"
    by (cases "insertBatches db s1 (drop BATCH_SIZE a)") auto
  from insertBatches_ok [OF ne t ok rest] Suc.prems(2)
  have eq: "r2 = None" "s2 = sa" "la = calls @ later" by simp_all
  from Suc.prems(1) have l: "length (drop BATCH_SIZE a) = BATCH_SIZE * j" by simp
  from Suc.IH [OF l] rest eq Suc.prems(3)
  have r: "insertBatches db s1 (drop BATCH_SIZE a @ b) = (res, s', later @ lb)" by simp
  from len have tk: "take BATCH_SIZE (a @ b) = take BATCH_SIZE a"
    and dr: "drop BATCH_SIZE (a @ b) = drop BATCH_SIZE a @ b" by simp_all
  from ne have nab: "a @ b \<noteq> []" by simp
  from t have t': "tryInsertWithMissingColumnRecovery db s ''spare_parts'' (take BATCH_SIZE (a @ b))
                = (resp, s1, calls)" by (simp only: tk)
  from r have r': "insertBatches db s1 (drop BATCH_SIZE (a @ b)) = (res, s', later @ lb)"
    by (simp only: dr)
  from insertBatches_ok [OF nab t' ok r'] eq(3) show ?case by simp
qed

text \<open>
  C2. Spare-parts importer: let the first \<open>j\<close> batches have gone through and let the
  insert of the next batch, after its one recovery attempt, end in an error or an
  exception. Then the import stops there: the calls made are those of the first \<open>j\<close>
  batches followed by those of the failing batch and no others, the database is left as
  the failing call left it, and the import error shown is the text of that failure
  (\<open>Supabase insert failed:\<close> with the message and details of the error). No success
  message is shown and no count of rows is reported.
\<close>

theorem doImport_halts:
  assumes "BATCH_SIZE * j < length toInsert"
    and "insertBatches db s (take (BATCH_SIZE * j) toInsert) = (None, sj, earlier)"
    and "tryInsertWithMissingColumnRecovery db sj ''spare_parts''
           (take BATCH_SIZE (drop (BATCH_SIZE * j) toInsert)) = (resp, s', calls)"
    and "failed resp"
  shows "doImportSelectedSheet db s toInsert = (ImportError (surfaced resp), s', earlier @ calls)"
proof -
  let ?a = "take (BATCH_SIZE * j) toInsert" and ?b = "drop (BATCH_SIZE * j) toInsert"
  from assms(1) have ne: "?b \<noteq> []" and la: "length ?a = BATCH_SIZE * j" by simp_all
  from insertBatches_fail [OF ne assms(3) assms(4)]
  have "insertBatches db sj ?b = (Some (surfaced resp), s', calls)" .
  from insertBatches_append [OF la assms(2) this]
  have "insertBatches db s toInsert = (Some (surfaced resp), s', earlier @ calls)" by simp
  moreover from assms(1) have "toInsert \<noteq> []" by auto
  ultimately show ?thesis by (simp add: doImportSelectedSheet_def)
qed

lemma insertBatches_unfold:
  "rows \<noteq> [] \<Longrightarrow> insertBatches db s rows =
     (case tryInsertWithMissingColumnRecovery db s ''spare_parts'' (take BATCH_SIZE rows) of
        (resp, s1, calls) \<Rightarrow>
          if failed resp then (Some (surfaced resp), s1, calls)
          else case insertBatches db s1 (drop BATCH_SIZE rows) of
            (res, s2, later) \<Rightarrow> (res, s2, calls @ later))"
  by (subst insertBatches.simps) simp

lemma duplicateKey_no_column: "missingMatch (message duplicateKeyError) = None"
  by code_simp

theorem doImport_halts_witness:
  "BATCH_SIZE * 1 < length (boltRows 401)
   \<and> insertBatches (scripted [Responded None, Responded (Some duplicateKeyError)]) 0
         (take (BATCH_SIZE * 1) (boltRows 401))
       = (None, 1, [\<lparr>site = FirstAttempt, request = InsertRows ''spare_parts'' (boltRows 200),
                      response = Responded None\<rparr>])
   \<and> failed (Responded (Some duplicateKeyError))
   \<and> doImportSelectedSheet (scripted [Responded None, Responded (Some duplicateKeyError)]) 0
         (boltRows 401)
       = (ImportError ''Supabase insert failed: duplicate key value violates unique constraint '', 2,
          [\<lparr>site = FirstAttempt, request = InsertRows ''spare_parts'' (boltRows 200),
            response = Responded None\<rparr>,
           \<lparr>site = FirstAttempt, request = InsertRows ''spare_parts'' (boltRows 200),
            response = Responded (Some duplicateKeyError)\<rparr>])"
proof -
  let ?db = "scripted [Responded None, Responded (Some duplicateKeyError)]"
  let ?c1 = "\<lparr>site = FirstAttempt, request = InsertRows ''spare_parts'' (boltRows 200),
              response = Responded None\<rparr>"
  let ?c2 = "\<lparr>site = FirstAttempt, request = InsertRows ''spare_parts'' (boltRows 200),
              response = Responded (Some duplicateKeyError)\<rparr>"
  have a: "BATCH_SIZE * 1 < length (boltRows 401)"
    by (simp add: BATCH_SIZE_def boltRows_def)
  have b: "insertBatches ?db 0 (take (BATCH_SIZE * 1) (boltRows 401)) = (None, 1, [?c1])"
    by (simp add: insertBatches_unfold insertBatches_Nil boltRows_def BATCH_SIZE_def
        tryInsertWithMissingColumnRecovery_def scripted_def failed_def)
  have c: "tryInsertWithMissingColumnRecovery ?db 1 ''spare_parts''
             (take BATCH_SIZE (drop (BATCH_SIZE * 1) (boltRows 401)))
           = (Responded (Some duplicateKeyError), 2, [?c2])"
    by (simp add: boltRows_def BATCH_SIZE_def tryInsertWithMissingColumnRecovery_def
        scripted_def duplicateKey_no_column)
  have d: "failed (Responded (Some duplicateKeyError))"
    by (simp add: failed_def)
  have e: "surfaced (Responded (Some duplicateKeyError))
           = ''Supabase insert failed: duplicate key value violates unique constraint ''"
    by (simp add: surfaced_def duplicateKeyError_def)
  note t = doImport_halts [where db = "?db" and s = 0 and j = 1, OF a b c d]
  from t have f: "doImportSelectedSheet ?db 0 (boltRows 401)
       = (ImportError ''Supabase insert failed: duplicate key value violates unique constraint '',
          2, [?c1, ?c2])"
    by (simp only: e append.simps)
  from a b d f show ?thesis by (intro conjI)
qed

lemma upsertBatches_Nil: "upsertBatches db s [] upserted = (Inr upserted, s, [])"
  by (simp add: upsertBatches.simps)

lemma upsertBatches_threw:
  assumes "payloads \<noteq> []"
    and "db s (UpsertRows ''inventory_items'' (take batchSize payloads) ''sku,warehouse_id'')
           = (Threw m, s1)"
  shows "upsertBatches db s payloads upserted
         = (Inl m, s1,
            [\<lparr>site = Upsert,
              request = UpsertRows ''inventory_items'' (take batchSize payloads) ''sku,warehouse_id'',
              response = Threw m\<rparr>])"
  using assms by (subst upsertBatches.simps) (simp add: Let_def)

lemma upsertBatches_answered:
  assumes "payloads \<noteq> []"
    and "db s (UpsertRows ''inventory_items'' (take batchSize payloads) ''sku,warehouse_id'')
           = (Responded err, s1)"
    and "upsertBatches db s1 (drop batchSize payloads)
           (if err = None then upserted + length (take batchSize payloads) else upserted)
           = (res, s2, later)"
  shows "upsertBatches db s payloads upserted
         = (res, s2,
            \<lparr>site = Upsert,
              request = UpsertRows ''inventory_items'' (take batchSize payloads) ''sku,warehouse_id'',
              response = Responded err\<rparr> # later)"
  using assms by (subst upsertBatches.simps) (simp add: Let_def)

lemma length_payloadsOf: "length (payloadsOf entropy json) = length json"
  by (simp add: payloadsOf_def)

theorem import_halts_counterexample:
  "fst (importSelectedSheet (scripted [Responded (Some duplicateKeyError)]) 0 (\<lambda>i. (0, 0))
          (sheetRows 301)) = ImportMessage 1
   \<and> map response (snd (snd (importSelectedSheet (scripted [Responded (Some duplicateKeyError)]) 0
          (\<lambda>i. (0, 0)) (sheetRows 301))))
       = [Responded (Some duplicateKeyError), Responded None]
   \<and> fst (doImportSelectedSheet (scripted [Responded None, Responded (Some duplicateKeyError)]) 0
          (boltRows 401))
       = ImportError ''Supabase insert failed: duplicate key value violates unique constraint ''"
proof -
  let ?db = "scripted [Responded (Some duplicateKeyError)]"
  let ?P = "payloadsOf (\<lambda>i. (0, 0)) (sheetRows 301)"
  have len: "length ?P = 301"
    by (simp add: length_payloadsOf sheetRows_def)
  then have ne: "?P \<noteq> []" by auto
  from len have ne2: "drop batchSize ?P \<noteq> []"
    and l2: "length (take batchSize (drop batchSize ?P)) = 1"
    and e3: "drop batchSize (drop batchSize ?P) = []"
    and l1: "length (take batchSize ?P) = 300"
    by (simp_all add: batchSize_def)
  have c1: "?db 0 (UpsertRows ''inventory_items'' (take batchSize ?P) ''sku,warehouse_id'')
             = (Responded (Some duplicateKeyError), 1)"
    by (simp add: scripted_def)
  have c2: "?db 1 (UpsertRows ''inventory_items'' (take batchSize (drop batchSize ?P))
               ''sku,warehouse_id'') = (Responded None, 2)"
    by (simp add: scripted_def)
  have s3: "upsertBatches ?db 2 (drop batchSize (drop batchSize ?P)) 1 = (Inr 1, 2, [])"
    by (simp only: e3 upsertBatches_Nil)
  have s2: "upsertBatches ?db 1 (drop batchSize ?P) 0
      = (Inr 1, 2,
         [\<lparr>site = Upsert,
           request = UpsertRows ''inventory_items'' (take batchSize (drop batchSize ?P))
                       ''sku,warehouse_id'',
           response = Responded None\<rparr>])"
    using upsertBatches_answered [where db = "?db" and s = 1 and upserted = 0 and res = "Inr 1"
        and ?s2.0 = 2 and later = "[]", OF ne2 c2] s3 l2 by simp
  have s1: "upsertBatches ?db 0 ?P 0
      = (Inr 1, 2,
         [\<lparr>site = Upsert,
           request = UpsertRows ''inventory_items'' (take batchSize ?P) ''sku,warehouse_id'',
           response = Responded (Some duplicateKeyError)\<rparr>,
          \<lparr>site = Upsert,
           request = UpsertRows ''inventory_items'' (take batchSize (drop batchSize ?P))
                       ''sku,warehouse_id'',
           response = Responded None\<rparr>])"
    using upsertBatches_answered [where db = "?db" and s = 0 and upserted = 0, OF ne c1] s2
    by simp
  have inv: "importSelectedSheet ?db 0 (\<lambda>i. (0, 0)) (sheetRows 301)
      = (ImportMessage 1, 2,
         [\<lparr>site = Upsert,
           request = UpsertRows ''inventory_items'' (take batchSize ?P) ''sku,warehouse_id'',
           response = Responded (Some duplicateKeyError)\<rparr>,
          \<lparr>site = Upsert,
           request = UpsertRows ''inventory_items'' (take batchSize (drop batchSize ?P))
                       ''sku,warehouse_id'',
           response = Responded None\<rparr>])"
  proof -
    have "sheetRows 301 \<noteq> []" by (simp add: sheetRows_def)
    then show ?thesis by (simp add: importSelectedSheet_def s1)
  qed
  have e: "surfaced (Responded (Some duplicateKeyError))
           = ''Supabase insert failed: duplicate key value violates unique constraint ''"
    by (simp add: surfaced_def duplicateKeyError_def)
  have "fst (doImportSelectedSheet (scripted [Responded None, Responded (Some duplicateKeyError)])
          0 (boltRows 401))
       = ImportError (surfaced (Responded (Some duplicateKeyError)))"
    by (simp add: doImportSelectedSheet_def insertBatches_unfold insertBatches_Nil boltRows_def
        BATCH_SIZE_def tryInsertWithMissingColumnRecovery_def scripted_def failed_def
        duplicateKey_no_column)
  then have spare: "fst (doImportSelectedSheet
          (scripted [Responded None, Responded (Some duplicateKeyError)]) 0 (boltRows 401))
       = ImportError ''Supabase insert failed: duplicate key value violates unique constraint ''"
    by (simp only: e)
  from inv spare show ?thesis by simp
qed

section \<open>Order of submission\<close>

lemma sequenced_append:
  assumes "sequenced xs" and "sequenced ys"
    and "xs \<noteq> []" and "\<not> failed (response (last xs))"
    and "ys = [] \<or> site (hd ys) \<noteq> Retry"
  shows "sequenced (xs @ ys)"
  using assms
proof (induction xs rule: sequenced.induct)
  fix c d :: call and cs :: "call list"
  assume "\<lbrakk>sequenced (d # cs); sequenced ys; d # cs \<noteq> [];
           \<not> failed (response (last (d # cs))); ys = [] \<or> site (hd ys) \<noteq> Retry\<rbrakk>
          \<Longrightarrow> sequenced ((d # cs) @ ys)"
    and "sequenced (c # d # cs)" and "sequenced ys" and "c # d # cs \<noteq> []"
    and "\<not> failed (response (last (c # d # cs)))" and "ys = [] \<or> site (hd ys) \<noteq> Retry"
  then show "sequenced ((c # d # cs) @ ys)" by simp
next
  assume "[] \<noteq> ([] :: call list)"
  then show "sequenced ([] @ ys)" by simp
next
  fix v :: call
  assume "sequenced ys" and "\<not> failed (response (last [v]))"
    and "ys = [] \<or> site (hd ys) \<noteq> Retry"
  then show "sequenced ([v] @ ys)" by (cases ys) auto
qed

lemma insertBatches_order:
  assumes "insertBatches db s rows = (res, s', calls)"
  shows "(\<exists>n \<le> length (chunks BATCH_SIZE rows).
            firstAttempts calls = map (InsertRows ''spare_parts'') (take n (chunks BATCH_SIZE rows))
            \<and> (res = None \<longrightarrow> n = length (chunks BATCH_SIZE rows)))
         \<and> sequenced calls \<and> (calls = [] \<or> site (hd calls) = FirstAttempt)
         \<and> (res = None \<longrightarrow> calls = [] \<or> \<not> failed (response (last calls)))"
  using assms
proof (induction db s rows arbitrary: res s' calls rule: insertBatches.induct)
  case (1 db s rows)
  show ?case
  proof (cases "rows = []")
    case True
    with "1.prems" show ?thesis
      by (simp add: insertBatches_Nil chunks_Nil firstAttempts_def)
  next
    case False
    have pos: "0 < BATCH_SIZE" by (simp add: BATCH_SIZE_def)
    obtain resp s1 cs
      where t: "tryInsertWithMissingColumnRecovery db s ''spare_parts'' (take BATCH_SIZE rows)
                  = (resp, s1, cs)"
      by (cases "tryInsertWithMissingColumnRecovery db s ''spare_parts'' (take BATCH_SIZE rows)") auto
    note tc = tryInsert_calls [OF t]
    have ch: "chunks BATCH_SIZE rows = take BATCH_SIZE rows # chunks BATCH_SIZE (drop BATCH_SIZE rows)"
      using pos False by (rule chunks_step)
    show ?thesis
    proof (cases "failed resp")
      case True
      from insertBatches_fail [OF False t True] "1.prems"
      have eq: "res = Some (surfaced resp)" "calls = cs" by simp_all
      have "firstAttempts calls = map (InsertRows ''spare_parts'') (take 1 (chunks BATCH_SIZE rows))"
        using tc eq ch by simp
      moreover have "1 \<le> length (chunks BATCH_SIZE rows)" using ch by simp
      ultimately have "\<exists>n \<le> length (chunks BATCH_SIZE rows).
            firstAttempts calls = map (InsertRows ''spare_parts'') (take n (chunks BATCH_SIZE rows))
            \<and> (res = None \<longrightarrow> n = length (chunks BATCH_SIZE rows))"
        using eq by blast
      with tc eq show ?thesis by simp
    next
      case ok: False
      obtain r2 s2 later where rest: "insertBatches db s1 (drop BATCH_SIZE rows) = (r2, s2, later)"
        by (cases "insertBatches db s1 (drop BATCH_SIZE rows)") auto
      from insertBatches_ok [OF False t ok rest] "1.prems"
      have eq: "res = r2" "calls = cs @ later" by simp_all
      have ih: "(\<exists>n \<le> length (chunks BATCH_SIZE (drop BATCH_SIZE rows)).
            firstAttempts later
              = map (InsertRows ''spare_parts'') (take n (chunks BATCH_SIZE (drop BATCH_SIZE rows)))
            \<and> (r2 = None \<longrightarrow> n = length (chunks BATCH_SIZE (drop BATCH_SIZE rows))))
         \<and> sequenced later \<and> (later = [] \<or> site (hd later) = FirstAttempt)
         \<and> (r2 = None \<longrightarrow> later = [] \<or> \<not> failed (response (last later)))"
        using "1.IH" [OF False t [symmetric] refl ok rest] by simp
      then obtain n where n: "n \<le> length (chunks BATCH_SIZE (drop BATCH_SIZE rows))"
        "firstAttempts later
              = map (InsertRows ''spare_parts'') (take n (chunks BATCH_SIZE (drop BATCH_SIZE rows)))"
        "r2 = None \<longrightarrow> n = length (chunks BATCH_SIZE (drop BATCH_SIZE rows))"
        by blast
      have fa: "firstAttempts calls
          = map (InsertRows ''spare_parts'') (take (Suc n) (chunks BATCH_SIZE rows))"
        using tc n(2) eq ch by (simp add: firstAttempts_def)
      have "Suc n \<le> length (chunks BATCH_SIZE rows)" using n(1) ch by simp
      moreover have "res = None \<longrightarrow> Suc n = length (chunks BATCH_SIZE rows)"
        using n(3) eq ch by simp
      ultimately have ex: "\<exists>n \<le> length (chunks BATCH_SIZE rows).
            firstAttempts calls = map (InsertRows ''spare_parts'') (take n (chunks BATCH_SIZE rows))
            \<and> (res = None \<longrightarrow> n = length (chunks BATCH_SIZE rows))"
        using fa by blast
      from tc ok have lastok: "cs \<noteq> []" "\<not> failed (response (last cs))" by simp_all
      from ih have hd_later: "later = [] \<or> site (hd later) \<noteq> Retry" by auto
      have sq: "sequenced calls"
        unfolding eq using tc ih lastok hd_later by (intro sequenced_append) simp_all
      have hd: "calls = [] \<or> site (hd calls) = FirstAttempt"
        using tc eq by simp
      have lst: "res = None \<longrightarrow> calls = [] \<or> \<not> failed (response (last calls))"
        using ih eq lastok by (cases "later = []") simp_all
      from ex sq hd lst show ?thesis by simp
    qed
  qed
qed

lemma upsertBatches_order:
  assumes "upsertBatches db s payloads upserted = (res, s', calls)"
  shows "\<exists>n \<le> length (chunks batchSize payloads).
            map request calls
              = map (\<lambda>b. UpsertRows ''inventory_items'' b ''sku,warehouse_id'')
                  (take n (chunks batchSize payloads))
            \<and> ((\<exists>k. res = Inr k) \<longrightarrow> n = length (chunks batchSize payloads))"
  using assms
proof (induction db s payloads upserted arbitrary: res s' calls rule: upsertBatches.induct)
  case (1 db s payloads upserted)
  show ?case
  proof (cases "payloads = []")
    case True
    with "1.prems" show ?thesis
      by (simp add: upsertBatches_Nil chunks_Nil)
  next
    case False
    have pos: "0 < batchSize" by (simp add: batchSize_def)
    let ?req = "UpsertRows ''inventory_items'' (take batchSize payloads) ''sku,warehouse_id''"
    have ch: "chunks batchSize payloads
                = take batchSize payloads # chunks batchSize (drop batchSize payloads)"
      using pos False by (rule chunks_step)
    obtain resp s1 where c: "db s ?req = (resp, s1)"
      by (cases "db s ?req") auto
    show ?thesis
    proof (cases resp)
      case (Threw m)
      from upsertBatches_threw [where db = db and s = s and upserted = upserted,
          OF False c [unfolded Threw]] "1.prems"
      have eq: "res = Inl m"
        "calls = [\<lparr>site = Upsert, request = ?req, response = Threw m\<rparr>]" by simp_all
      have "map request calls
              = map (\<lambda>b. UpsertRows ''inventory_items'' b ''sku,warehouse_id'')
                  (take 1 (chunks batchSize payloads))"
        using eq ch by simp
      moreover have "1 \<le> length (chunks batchSize payloads)" using ch by simp
      ultimately show ?thesis using eq by blast
    next
      case (Responded err)
      let ?u = "if err = None then upserted + length (take batchSize payloads) else upserted"
      obtain r2 s2 later
        where rest: "upsertBatches db s1 (drop batchSize payloads) ?u = (r2, s2, later)"
        by (cases "upsertBatches db s1 (drop batchSize payloads) ?u") auto
      from upsertBatches_answered [where db = db and s = s and upserted = upserted,
          OF False c [unfolded Responded] rest] "1.prems"
      have eq: "res = r2"
        "calls = \<lparr>site = Upsert, request = ?req, response = Responded err\<rparr> # later"
        by simp_all
      have "\<exists>n \<le> length (chunks batchSize (drop batchSize payloads)).
            map request later
              = map (\<lambda>b. UpsertRows ''inventory_items'' b ''sku,warehouse_id'')
                  (take n (chunks batchSize (drop batchSize payloads)))
            \<and> ((\<exists>k. r2 = Inr k) \<longrightarrow> n = length (chunks batchSize (drop batchSize payloads)))"
        using "1.IH" [OF False refl refl c [symmetric] Responded rest] by simp
      then obtain n where n: "n \<le> length (chunks batchSize (drop batchSize payloads))"
        "map request later
              = map (\<lambda>b. UpsertRows ''inventory_items'' b ''sku,warehouse_id'')
                  (take n (chunks batchSize (drop batchSize payloads)))"
        "(\<exists>k. r2 = Inr k) \<longrightarrow> n = length (chunks batchSize (drop batchSize payloads))"
        by blast
      have "map request calls
              = map (\<lambda>b. UpsertRows ''inventory_items'' b ''sku,warehouse_id'')
                  (take (Suc n) (chunks batchSize payloads))"
        using n(2) eq ch by simp
      moreover have "Suc n \<le> length (chunks batchSize payloads)" using n(1) ch by simp
      moreover have "(\<exists>k. res = Inr k) \<longrightarrow> Suc n = length (chunks batchSize payloads)"
        using n(3) eq ch by simp
      ultimately show ?thesis by blast
    qed
  qed
qed

lemma chained_append: "chained s (es @ fs) = (chained s es \<and> chained (endState s es) fs)"
  by (induction es arbitrary: s) auto

lemma endState_append: "endState s (es @ fs) = endState (endState s es) fs"
  by (induction es arbitrary: s) auto

lemma endState_last: "es \<noteq> [] \<Longrightarrow> endState s es = state_after (last es)"
  by (induction es arbitrary: s) auto

lemma chained_hd: "chained s es \<Longrightarrow> es \<noteq> [] \<Longrightarrow> state_before (hd es) = s"
  by (cases es) auto

lemma chained_Suc:
  "chained s es \<Longrightarrow> Suc i < length es \<Longrightarrow> state_before (es ! Suc i) = state_after (es ! i)"
proof (induction es arbitrary: s i)
  case Nil
  then show ?case by simp
next
  case (Cons e es)
  show ?case
  proof (cases i)
    case 0
    with Cons.prems show ?thesis by (cases es) auto
  next
    case (Suc j)
    with Cons.prems Cons.IH [of "state_after e" j] show ?thesis by simp
  qed
qed

lemma linked_Nil: "linked db s s [] []"
  by (simp add: linked_def)

lemma linked_append:
  "linked db s t es cs \<Longrightarrow> linked db t u fs ds \<Longrightarrow> linked db s u (es @ fs) (cs @ ds)"
  by (simp add: linked_def chained_append endState_append)

lemma linked_single:
  "db s req = (resp, t) \<Longrightarrow>
   linked db s t [\<lparr>state_before = s, asked = req, answered = resp, state_after = t\<rparr>]
     [\<lparr>site = k, request = req, response = resp\<rparr>]"
  by (simp add: linked_def)

lemma tryInsert_traced:
  assumes "tryInsertWithMissingColumnRecovery db s table batch = (resp, t, cs)"
  shows "\<exists>es. tryInsertWithMissingColumnRecovery (traced db) (s, log0) table batch
                 = (resp, (t, log0 @ es), cs) \<and> linked db s t es cs"
proof -
  obtain r1 s1 where c1: "db s (InsertRows table batch) = (r1, s1)"
    by (cases "db s (InsertRows table batch)") auto
  let ?e1 = "\<lparr>state_before = s, asked = InsertRows table batch, answered = r1, state_after = s1\<rparr>"
  let ?c1 = "\<lparr>site = FirstAttempt, request = InsertRows table batch, response = r1\<rparr>"
  have l1: "linked db s s1 [?e1] [?c1]" using c1 by (rule linked_single)
  have t1: "traced db (s, log0) (InsertRows table batch) = (r1, (s1, log0 @ [?e1]))"
    using c1 by simp
  show ?thesis
  proof (cases "\<exists>e col. r1 = Responded (Some e) \<and> missingMatch (message e) = Some col")
    case False
    then have once: "\<And>d u. d u (InsertRows table batch) = (r1, s1) \<Longrightarrow> True" by simp
    from False c1 assms have eq: "resp = r1" "t = s1" "cs = [?c1]"
      by (auto simp: tryInsertWithMissingColumnRecovery_def Let_def
          split: response.splits option.splits)
    from False t1 have "tryInsertWithMissingColumnRecovery (traced db) (s, log0) table batch
                 = (r1, (s1, log0 @ [?e1]), [?c1])"
      by (auto simp: tryInsertWithMissingColumnRecovery_def Let_def
          split: response.splits option.splits)
    with l1 eq show ?thesis by blast
  next
    case True
    then obtain e col where r1: "r1 = Responded (Some e)" and m: "missingMatch (message e) = Some col"
      by blast
    let ?req2 = "InsertRows table (map (cleanRow col) batch)"
    obtain r2 s2 where c2: "db s1 ?req2 = (r2, s2)"
      by (cases "db s1 ?req2") auto
    let ?e2 = "\<lparr>state_before = s1, asked = ?req2, answered = r2, state_after = s2\<rparr>"
    let ?c2 = "\<lparr>site = Retry, request = ?req2, response = r2\<rparr>"
    have l2: "linked db s1 s2 [?e2] [?c2]" using c2 by (rule linked_single)
    have t2: "traced db (s1, log0 @ [?e1]) ?req2 = (r2, (s2, log0 @ [?e1, ?e2]))"
      using c2 by simp
    from c1 c2 r1 m assms have eq: "resp = r2" "t = s2" "cs = [?c1, ?c2]"
      by (auto simp: tryInsertWithMissingColumnRecovery_def Let_def)
    from t1 t2 r1 m have "tryInsertWithMissingColumnRecovery (traced db) (s, log0) table batch
                 = (r2, (s2, log0 @ [?e1, ?e2]), [?c1, ?c2])"
      by (simp add: tryInsertWithMissingColumnRecovery_def Let_def)
    moreover from linked_append [OF l1 l2] have "linked db s s2 [?e1, ?e2] [?c1, ?c2]" by simp
    ultimately show ?thesis using eq by blast
  qed
qed

lemma insertBatches_traced:
  assumes "insertBatches db s rows = (res, t, cs)"
  shows "\<exists>es. insertBatches (traced db) (s, log0) rows = (res, (t, log0 @ es), cs)
               \<and> linked db s t es cs"
  using assms
proof (induction db s rows arbitrary: res t cs log0 rule: insertBatches.induct)
  case (1 db s rows)
  show ?case
  proof (cases "rows = []")
    case True
    with "1.prems" have "res = None" "t = s" "cs = []" by (simp_all add: insertBatches_Nil)
    with True linked_Nil [of db s] show ?thesis by (simp add: insertBatches_Nil)
  next
    case False
    obtain resp s1 c1
      where ti: "tryInsertWithMissingColumnRecovery db s ''spare_parts'' (take BATCH_SIZE rows)
                  = (resp, s1, c1)"
      by (cases "tryInsertWithMissingColumnRecovery db s ''spare_parts'' (take BATCH_SIZE rows)") auto
    from tryInsert_traced [OF ti, of log0] obtain e1
      where tt: "tryInsertWithMissingColumnRecovery (traced db) (s, log0) ''spare_parts''
                   (take BATCH_SIZE rows) = (resp, (s1, log0 @ e1), c1)"
        and l1: "linked db s s1 e1 c1" by blast
    show ?thesis
    proof (cases "failed resp")
      case True
      from insertBatches_fail [OF False ti True] "1.prems"
      have eq: "res = Some (surfaced resp)" "t = s1" "cs = c1" by simp_all
      from insertBatches_fail [OF False tt True] l1 eq show ?thesis by blast
    next
      case ok: False
      obtain r2 s2 later where rest: "insertBatches db s1 (drop BATCH_SIZE rows) = (r2, s2, later)"
        by (cases "insertBatches db s1 (drop BATCH_SIZE rows)") auto
      from insertBatches_ok [OF False ti ok rest] "1.prems"
      have eq: "res = r2" "t = s2" "cs = c1 @ later" by simp_all
      from "1.IH" [OF False ti [symmetric] refl ok rest, of "log0 @ e1"] obtain e2
        where rt: "insertBatches (traced db) (s1, log0 @ e1) (drop BATCH_SIZE rows)
                     = (r2, (s2, (log0 @ e1) @ e2), later)"
          and l2: "linked db s1 s2 e2 later" by blast
      from insertBatches_ok [OF False tt ok rt]
      have "insertBatches (traced db) (s, log0) rows = (r2, (s2, log0 @ (e1 @ e2)), c1 @ later)"
        by simp
      with linked_append [OF l1 l2] eq show ?thesis by blast
    qed
  qed
qed

lemma upsertBatches_traced:
  assumes "upsertBatches db s payloads upserted = (res, t, cs)"
  shows "\<exists>es. upsertBatches (traced db) (s, log0) payloads upserted = (res, (t, log0 @ es), cs)
               \<and> linked db s t es cs"
  using assms
proof (induction db s payloads upserted arbitrary: res t cs log0 rule: upsertBatches.induct)
  case (1 db s payloads upserted)
  show ?case
  proof (cases "payloads = []")
    case True
    with "1.prems" have "res = Inr upserted" "t = s" "cs = []" by (simp_all add: upsertBatches_Nil)
    with True linked_Nil [of db s] show ?thesis by (simp add: upsertBatches_Nil)
  next
    case False
    let ?req = "UpsertRows ''inventory_items'' (take batchSize payloads) ''sku,warehouse_id''"
    obtain resp s1 where c: "db s ?req = (resp, s1)"
      by (cases "db s ?req") auto
    let ?e = "\<lparr>state_before = s, asked = ?req, answered = resp, state_after = s1\<rparr>"
    let ?c = "\<lparr>site = Upsert, request = ?req, response = resp\<rparr>"
    have l1: "linked db s s1 [?e] [?c]" using c by (rule linked_single)
    have tc: "traced db (s, log0) ?req = (resp, (s1, log0 @ [?e]))" using c by simp
    show ?thesis
    proof (cases resp)
      case (Threw m)
      from upsertBatches_threw [where db = db and s = s and upserted = upserted,
          OF False c [unfolded Threw]] "1.prems"
      have eq: "res = Inl m" "t = s1" "cs = [?c]" by (simp_all add: Threw)
      from upsertBatches_threw [where db = "traced db" and s = "(s, log0)" and upserted = upserted,
          OF False tc [unfolded Threw]]
      have "upsertBatches (traced db) (s, log0) payloads upserted = (Inl m, (s1, log0 @ [?e]), [?c])"
        by (simp add: Threw)
      with l1 eq show ?thesis by blast
    next
      case (Responded err)
      let ?u = "if err = None then upserted + length (take batchSize payloads) else upserted"
      obtain r2 s2 later
        where rest: "upsertBatches db s1 (drop batchSize payloads) ?u = (r2, s2, later)"
        by (cases "upsertBatches db s1 (drop batchSize payloads) ?u") auto
      from upsertBatches_answered [where db = db and s = s and upserted = upserted,
          OF False c [unfolded Responded] rest] "1.prems"
      have eq: "res = r2" "t = s2" "cs = ?c # later" by (simp_all add: Responded)
      from "1.IH" [OF False refl refl c [symmetric] Responded rest, of "log0 @ [?e]"] obtain e2
        where rt: "upsertBatches (traced db) (s1, log0 @ [?e]) (drop batchSize payloads) ?u
                     = (r2, (s2, (log0 @ [?e]) @ e2), later)"
          and l2: "linked db s1 s2 e2 later" by blast
      from upsertBatches_answered [where db = "traced db" and s = "(s, log0)" and upserted = upserted,
          OF False tc [unfolded Responded] rt [unfolded Responded]]
      have "upsertBatches (traced db) (s, log0) payloads upserted
              = (r2, (s2, log0 @ (?e # e2)), ?c # later)"
        by (simp add: Responded)
      moreover from linked_append [OF l1 l2] have "linked db s s2 (?e # e2) (?c # later)" by simp
      ultimately show ?thesis using eq by blast
    qed
  qed
qed

lemma linked_index:
  assumes "linked db s t es cs"
  shows "length es = length cs
    \<and> (\<forall>i < length es.
          asked (es ! i) = request (cs ! i) \<and> answered (es ! i) = response (cs ! i)
          \<and> state_before (es ! i) = (if i = 0 then s else state_after (es ! (i - 1)))
          \<and> db (state_before (es ! i)) (asked (es ! i)) = (answered (es ! i), state_after (es ! i)))
    \<and> t = (if es = [] then s else state_after (last es))"
proof -
  from assms have ch: "chained s es" and en: "endState s es = t"
    and mp: "map (\<lambda>e. (asked e, answered e)) es = map (\<lambda>c. (request c, response c)) cs"
    and al: "list_all (\<lambda>e. db (state_before e) (asked e) = (answered e, state_after e)) es"
    by (simp_all add: linked_def)
  from mp have len: "length es = length cs" by (rule map_eq_imp_length_eq)
  have each: "asked (es ! i) = request (cs ! i) \<and> answered (es ! i) = response (cs ! i)
          \<and> state_before (es ! i) = (if i = 0 then s else state_after (es ! (i - 1)))
          \<and> db (state_before (es ! i)) (asked (es ! i)) = (answered (es ! i), state_after (es ! i))"
    if i: "i < length es" for i
  proof -
    from i len have "map (\<lambda>e. (asked e, answered e)) es ! i = (asked (es ! i), answered (es ! i))"
      and "map (\<lambda>c. (request c, response c)) cs ! i = (request (cs ! i), response (cs ! i))"
      by simp_all
    with mp have a: "asked (es ! i) = request (cs ! i) \<and> answered (es ! i) = response (cs ! i)"
      by simp
    have b: "state_before (es ! i) = (if i = 0 then s else state_after (es ! (i - 1)))"
    proof (cases i)
      case 0
      with i chained_hd [OF ch] show ?thesis by (cases es) auto
    next
      case (Suc j)
      with i chained_Suc [OF ch, of j] show ?thesis by simp
    qed
    from al i have c: "db (state_before (es ! i)) (asked (es ! i)) = (answered (es ! i), state_after (es ! i))"
      by (simp add: list_all_length)
    from a b c show ?thesis by simp
  qed
  have "t = (if es = [] then s else state_after (last es))"
    using en endState_last [of es s] by (cases "es = []") auto
  with len each show ?thesis by blast
qed

lemma doImport_traced:
  assumes "doImportSelectedSheet db s toInsert = (out, s', calls)"
  shows "\<exists>es. doImportSelectedSheet (traced db) (s, []) toInsert = (out, (s', es), calls)
               \<and> linked db s s' es calls"
proof (cases "toInsert = []")
  case True
  with assms have "out = ImportError ''No valid rows prepared for insert.''" "s' = s" "calls = []"
    by (simp_all add: doImportSelectedSheet_def)
  with True linked_Nil [of db s] show ?thesis by (simp add: doImportSelectedSheet_def)
next
  case False
  obtain r t cs where i: "insertBatches db s toInsert = (r, t, cs)"
    by (cases "insertBatches db s toInsert") auto
  from insertBatches_traced [OF i, of "[]"] obtain es
    where tr: "insertBatches (traced db) (s, []) toInsert = (r, (t, es), cs)"
      and l: "linked db s t es cs" by auto
  from False i assms have eq: "s' = t" "calls = cs"
    "out = (case r of Some msg \<Rightarrow> ImportError msg | None \<Rightarrow> Alerted (length toInsert))"
    by (auto simp: doImportSelectedSheet_def split: option.splits)
  from False tr eq have "doImportSelectedSheet (traced db) (s, []) toInsert = (out, (s', es), calls)"
    by (simp add: doImportSelectedSheet_def split: option.splits)
  with l eq show ?thesis by blast
qed

lemma importSheet_traced:
  assumes "importSelectedSheet db s entropy json = (out, s', calls)"
  shows "\<exists>es. importSelectedSheet (traced db) (s, []) entropy json = (out, (s', es), calls)
               \<and> linked db s s' es calls"
proof (cases "json = []")
  case True
  with assms have "out = ImportError ''Selected sheet is empty.''" "s' = s" "calls = []"
    by (simp_all add: importSelectedSheet_def)
  with True linked_Nil [of db s] show ?thesis by (simp add: importSelectedSheet_def)
next
  case False
  obtain r t cs where i: "upsertBatches db s (payloadsOf entropy json) 0 = (r, t, cs)"
    by (cases "upsertBatches db s (payloadsOf entropy json) 0") auto
  from upsertBatches_traced [OF i, of "[]"] obtain es
    where tr: "upsertBatches (traced db) (s, []) (payloadsOf entropy json) 0 = (r, (t, es), cs)"
      and l: "linked db s t es cs" by auto
  from False i assms have eq: "s' = t" "calls = cs"
    "out = (case r of Inl msg \<Rightarrow> ImportError msg | Inr k \<Rightarrow> ImportMessage k)"
    by (auto simp: importSelectedSheet_def split: sum.splits)
  from False tr eq have "importSelectedSheet (traced db) (s, []) entropy json = (out, (s', es), calls)"
    by (simp add: importSelectedSheet_def split: sum.splits)
  with l eq show ?thesis by blast
qed

lemma missingColumn_match: "missingMatch (message missingColumnError) = Some ''rack_id''"
  by code_simp

lemma cleanRow_bolt: "cleanRow ''rack_id'' [(''name'', JStr ''bolt'')] = [(''name'', JStr ''bolt'')]"
  by code_simp

text \<open>
  C6. The batches of an import are the consecutive slices of its rows, and they are
  submitted one after the other in that order. In the log of the spare-parts importer
  the first attempts are the first \<open>n\<close> batches in order (all of them when the import
  succeeds), a retry stands directly after the failed first attempt of its batch, and a
  batch is begun only after a call that succeeded. In the log of the inventory importer
  the calls are the first \<open>n\<close> batches in order (all of them unless a call threw). For
  both importers the journal of the instrumented client holds the same calls with the
  same answers in the same order, each with the state it was made in and the state it
  left: the first call is made in the state the import started in, every later call is
  made in the state its predecessor left, and the import ends in the state the last
  call left. So no call is made before the call ahead of it has been answered.
\<close>

theorem batches_in_order:
  assumes "doImportSelectedSheet db s toInsert = (out, s', calls)"
    and "importSelectedSheet db2 s2 entropy json = (out2, s2', calls2)"
  shows "concat (chunks BATCH_SIZE toInsert) = toInsert
    \<and> (\<exists>n \<le> length (chunks BATCH_SIZE toInsert).
          firstAttempts calls = map (InsertRows ''spare_parts'') (take n (chunks BATCH_SIZE toInsert))
          \<and> ((\<exists>k. out = Alerted k) \<longrightarrow> n = length (chunks BATCH_SIZE toInsert)))
    \<and> sequenced calls
    \<and> concat (chunks batchSize (payloadsOf entropy json)) = payloadsOf entropy json
    \<and> (\<exists>n \<le> length (chunks batchSize (payloadsOf entropy json)).
          map request calls2
            = map (\<lambda>b. UpsertRows ''inventory_items'' b ''sku,warehouse_id'')
                (take n (chunks batchSize (payloadsOf entropy json)))
          \<and> ((\<exists>k. out2 = ImportMessage k) \<longrightarrow> n = length (chunks batchSize (payloadsOf entropy json))))
    \<and> (\<exists>journal.
          doImportSelectedSheet (traced db) (s, []) toInsert = (out, (s', journal), calls)
          \<and> length journal = length calls
          \<and> (\<forall>i < length journal.
                asked (journal ! i) = request (calls ! i)
                \<and> answered (journal ! i) = response (calls ! i)
                \<and> state_before (journal ! i) = (if i = 0 then s else state_after (journal ! (i - 1)))
                \<and> db (state_before (journal ! i)) (asked (journal ! i))
                    = (answered (journal ! i), state_after (journal ! i)))
          \<and> s' = (if journal = [] then s else state_after (last journal)))
    \<and> (\<exists>journal.
          importSelectedSheet (traced db2) (s2, []) entropy json = (out2, (s2', journal), calls2)
          \<and> length journal = length calls2
          \<and> (\<forall>i < length journal.
                asked (journal ! i) = request (calls2 ! i)
                \<and> answered (journal ! i) = response (calls2 ! i)
                \<and> state_before (journal ! i) = (if i = 0 then s2 else state_after (journal ! (i - 1)))
                \<and> db2 (state_before (journal ! i)) (asked (journal ! i))
                    = (answered (journal ! i), state_after (journal ! i)))
          \<and> s2' = (if journal = [] then s2 else state_after (last journal)))"
proof -
  have c1: "concat (chunks BATCH_SIZE toInsert) = toInsert"
    by (rule concat_chunks) (simp add: BATCH_SIZE_def)
  have c2: "concat (chunks batchSize (payloadsOf entropy json)) = payloadsOf entropy json"
    by (rule concat_chunks) (simp add: batchSize_def)
  obtain res where ib: "insertBatches db s toInsert = (res, s', calls)"
    and out: "(\<exists>k. out = Alerted k) \<longrightarrow> res = None"
  proof (cases "toInsert = []")
    case True
    with assms(1) have "out = ImportError ''No valid rows prepared for insert.''" "s' = s" "calls = []"
      by (simp_all add: doImportSelectedSheet_def)
    with True that [of None] show ?thesis by (simp add: insertBatches_Nil)
  next
    case False
    obtain r t cs where i: "insertBatches db s toInsert = (r, t, cs)"
      by (cases "insertBatches db s toInsert") auto
    with False assms(1) that [of r] show ?thesis
      by (cases r) (auto simp: doImportSelectedSheet_def)
  qed
  from insertBatches_order [OF ib] out
  have p1: "\<exists>n \<le> length (chunks BATCH_SIZE toInsert).
          firstAttempts calls = map (InsertRows ''spare_parts'') (take n (chunks BATCH_SIZE toInsert))
          \<and> ((\<exists>k. out = Alerted k) \<longrightarrow> n = length (chunks BATCH_SIZE toInsert))"
    and p2: "sequenced calls" by blast+
  obtain res2 where ub: "upsertBatches db2 s2 (payloadsOf entropy json) 0 = (res2, s2', calls2)"
    and out2: "(\<exists>k. out2 = ImportMessage k) \<longrightarrow> (\<exists>k. res2 = Inr k)"
  proof (cases "json = []")
    case True
    with assms(2) have "out2 = ImportError ''Selected sheet is empty.''" "s2' = s2" "calls2 = []"
      by (simp_all add: importSelectedSheet_def)
    with True that [of "Inr 0"] show ?thesis
      by (simp add: upsertBatches_Nil payloadsOf_def)
  next
    case False
    obtain r t cs where i: "upsertBatches db2 s2 (payloadsOf entropy json) 0 = (r, t, cs)"
      by (cases "upsertBatches db2 s2 (payloadsOf entropy json) 0") auto
    with False assms(2) that [of r] show ?thesis
      by (cases r) (auto simp: importSelectedSheet_def)
  qed
  from upsertBatches_order [OF ub] out2
  have p3: "\<exists>n \<le> length (chunks batchSize (payloadsOf entropy json)).
          map request calls2
            = map (\<lambda>b. UpsertRows ''inventory_items'' b ''sku,warehouse_id'')
                (take n (chunks batchSize (payloadsOf entropy json)))
          \<and> ((\<exists>k. out2 = ImportMessage k) \<longrightarrow> n = length (chunks batchSize (payloadsOf entropy json)))"
    by blast
  from doImport_traced [OF assms(1)] obtain es
    where t1: "doImportSelectedSheet (traced db) (s, []) toInsert = (out, (s', es), calls)"
      and l1: "linked db s s' es calls" by blast
  from t1 linked_index [OF l1]
  have p4: "\<exists>journal.
          doImportSelectedSheet (traced db) (s, []) toInsert = (out, (s', journal), calls)
          \<and> length journal = length calls
          \<and> (\<forall>i < length journal.
                asked (journal ! i) = request (calls ! i)
                \<and> answered (journal ! i) = response (calls ! i)
                \<and> state_before (journal ! i) = (if i = 0 then s else state_after (journal ! (i - 1)))
                \<and> db (state_before (journal ! i)) (asked (journal ! i))
                    = (answered (journal ! i), state_after (journal ! i)))
          \<and> s' = (if journal = [] then s else state_after (last journal))"
    by (intro exI [of _ es] conjI) blast+
  from importSheet_traced [OF assms(2)] obtain fs
    where t2: "importSelectedSheet (traced db2) (s2, []) entropy json = (out2, (s2', fs), calls2)"
      and l2: "linked db2 s2 s2' fs calls2" by blast
  from t2 linked_index [OF l2]
  have p5: "\<exists>journal.
          importSelectedSheet (traced db2) (s2, []) entropy json = (out2, (s2', journal), calls2)
          \<and> length journal = length calls2
          \<and> (\<forall>i < length journal.
                asked (journal ! i) = request (calls2 ! i)
                \<and> answered (journal ! i) = response (calls2 ! i)
                \<and> state_before (journal ! i) = (if i = 0 then s2 else state_after (journal ! (i - 1)))
                \<and> db2 (state_before (journal ! i)) (asked (journal ! i))
                    = (answered (journal ! i), state_after (journal ! i)))
          \<and> s2' = (if journal = [] then s2 else state_after (last journal))"
    by (intro exI [of _ fs] conjI) blast+
  from c1 p1 p2 c2 p3 p4 p5 show ?thesis by (intro conjI)
qed

theorem batches_in_order_witness:
  "doImportSelectedSheet
       (scripted [Responded (Some missingColumnError), Responded None, Responded None]) 0
       (boltRows 201)
     = (Alerted 201, 3,
        [\<lparr>site = FirstAttempt, request = InsertRows ''spare_parts'' (boltRows 200),
          response = Responded (Some missingColumnError)\<rparr>,
         \<lparr>site = Retry, request = InsertRows ''spare_parts'' (boltRows 200),
          response = Responded None\<rparr>,
         \<lparr>site = FirstAttempt, request = InsertRows ''spare_parts'' (boltRows 1),
          response = Responded None\<rparr>])
   \<and> importSelectedSheet (scripted []) 0 (\<lambda>i. (0, 0)) (sheetRows 1)
     = (ImportMessage 1, 1,
        [\<lparr>site = Upsert,
          request = UpsertRows ''inventory_items'' (payloadsOf (\<lambda>i. (0, 0)) (sheetRows 1))
                      ''sku,warehouse_id'',
          response = Responded None\<rparr>])
   \<and> sequenced
        [\<lparr>site = FirstAttempt, request = InsertRows ''spare_parts'' (boltRows 200),
          response = Responded (Some missingColumnError)\<rparr>,
         \<lparr>site = Retry, request = InsertRows ''spare_parts'' (boltRows 200),
          response = Responded None\<rparr>,
         \<lparr>site = FirstAttempt, request = InsertRows ''spare_parts'' (boltRows 1),
          response = Responded None\<rparr>]
   \<and> chunks BATCH_SIZE (boltRows 201) = [boltRows 200, boltRows 1]
   \<and> doImportSelectedSheet
       (traced (scripted [Responded (Some missingColumnError), Responded None, Responded None]))
       (0, []) (boltRows 201)
     = (Alerted 201,
        (3, [\<lparr>state_before = 0, asked = InsertRows ''spare_parts'' (boltRows 200),
              answered = Responded (Some missingColumnError), state_after = 1\<rparr>,
             \<lparr>state_before = 1, asked = InsertRows ''spare_parts'' (boltRows 200),
              answered = Responded None, state_after = 2\<rparr>,
             \<lparr>state_before = 2, asked = InsertRows ''spare_parts'' (boltRows 1),
              answered = Responded None, state_after = 3\<rparr>]),
        [\<lparr>site = FirstAttempt, request = InsertRows ''spare_parts'' (boltRows 200),
          response = Responded (Some missingColumnError)\<rparr>,
         \<lparr>site = Retry, request = InsertRows ''spare_parts'' (boltRows 200),
          response = Responded None\<rparr>,
         \<lparr>site = FirstAttempt, request = InsertRows ''spare_parts'' (boltRows 1),
          response = Responded None\<rparr>])
   \<and> state_before
        ([\<lparr>state_before = 0, asked = InsertRows ''spare_parts'' (boltRows 200),
              answered = Responded (Some missingColumnError), state_after = 1\<rparr>,
             \<lparr>state_before = 1, asked = InsertRows ''spare_parts'' (boltRows 200),
              answered = Responded None, state_after = 2\<rparr>,
             \<lparr>state_before = 2, asked = InsertRows ''spare_parts'' (boltRows 1),
              answered = Responded None, state_after = (3::nat)\<rparr>] ! 2)
       = state_after
        ([\<lparr>state_before = 0, asked = InsertRows ''spare_parts'' (boltRows 200),
              answered = Responded (Some missingColumnError), state_after = 1\<rparr>,
             \<lparr>state_before = 1, asked = InsertRows ''spare_parts'' (boltRows 200),
              answered = Responded None, state_after = 2\<rparr>,
             \<lparr>state_before = 2, asked = InsertRows ''spare_parts'' (boltRows 1),
              answered = Responded None, state_after = (3::nat)\<rparr>] ! 1)"
proof -
  let ?db = "scripted [Responded (Some missingColumnError), Responded None, Responded None]"
  let ?calls = "[\<lparr>site = FirstAttempt, request = InsertRows ''spare_parts'' (boltRows 200),
          response = Responded (Some missingColumnError)\<rparr>,
         \<lparr>site = Retry, request = InsertRows ''spare_parts'' (boltRows 200),
          response = Responded None\<rparr>,
         \<lparr>site = FirstAttempt, request = InsertRows ''spare_parts'' (boltRows 1),
          response = Responded None\<rparr>]"
  let ?J = "[\<lparr>state_before = 0, asked = InsertRows ''spare_parts'' (boltRows 200),
              answered = Responded (Some missingColumnError), state_after = 1\<rparr>,
             \<lparr>state_before = 1, asked = InsertRows ''spare_parts'' (boltRows 200),
              answered = Responded None, state_after = 2\<rparr>,
             \<lparr>state_before = 2, asked = InsertRows ''spare_parts'' (boltRows 1),
              answered = Responded None, state_after = (3::nat)\<rparr>]"
  have a: "doImportSelectedSheet ?db 0 (boltRows 201) = (Alerted 201, 3, ?calls)"
    by (simp add: doImportSelectedSheet_def insertBatches_unfold insertBatches_Nil boltRows_def
        BATCH_SIZE_def tryInsertWithMissingColumnRecovery_def scripted_def failed_def
        missingColumn_match cleanRow_bolt)
  have b: "importSelectedSheet (scripted []) 0 (\<lambda>i. (0, 0)) (sheetRows 1)
     = (ImportMessage 1, 1,
        [\<lparr>site = Upsert,
          request = UpsertRows ''inventory_items'' (payloadsOf (\<lambda>i. (0, 0)) (sheetRows 1))
                      ''sku,warehouse_id'',
          response = Responded None\<rparr>])"
    by (simp add: importSelectedSheet_def sheetRows_def payloadsOf_def batchSize_def scripted_def
        upsertBatches_Nil
        upsertBatches_answered [where db = "scripted []" and s = 0 and err = None
          and ?s1.0 = 1 and later = "[]" and ?s2.0 = 1 and res = "Inr 1" and upserted = 0])
  have c: "chunks BATCH_SIZE (boltRows 201) = [boltRows 200, boltRows 1]"
    by (simp add: chunks_step chunks_Nil boltRows_def BATCH_SIZE_def)
  have e: "doImportSelectedSheet (traced ?db) (0, []) (boltRows 201) = (Alerted 201, (3, ?J), ?calls)"
    by (simp add: doImportSelectedSheet_def insertBatches_unfold insertBatches_Nil boltRows_def
        BATCH_SIZE_def tryInsertWithMissingColumnRecovery_def scripted_def failed_def
        missingColumn_match cleanRow_bolt Let_def)
  note t = batches_in_order [where db = "?db" and s = 0 and ?db2.0 = "scripted []"
      and ?s2.0 = 0, OF a b]
  from t have d: "sequenced ?calls" by blast
  from t obtain journal
    where j1: "doImportSelectedSheet (traced ?db) (0, []) (boltRows 201)
                 = (Alerted 201, (3, journal), ?calls)"
      and j2: "\<forall>i < length journal.
                 state_before (journal ! i) = (if i = 0 then 0 else state_after (journal ! (i - 1)))"
    by blast
  from j1 e have j: "journal = ?J" by simp
  from j2 [rule_format, of 2] have f: "state_before (?J ! 2) = state_after (?J ! 1)"
    unfolding j by simp
  from a b d c e f show ?thesis by (intro conjI)
qed

section \<open>Properties of the upload API\<close>

lemma length_rowResults: "length (rowResults step s rows) = length rows"
  by (induction rows arbitrary: s) simp_all

lemma rowResults_nth:
  "i < length rows \<Longrightarrow>
     rowResults step s rows ! i = fst (step (stateAfter step s (take i rows)) (rows ! i))"
proof (induction rows arbitrary: s i)
  case Nil
  then show ?case by simp
next
  case (Cons row rest)
  show ?case
  proof (cases i)
    case 0
    then show ?thesis by simp
  next
    case (Suc j)
    with Cons.prems have "j < length rest" by simp
    from Cons.IH [OF this, of "snd (step s row)"] Suc show ?thesis by simp
  qed
qed

lemma results_count:
  "length (filter (\<lambda>r. r = DidInsert) rs) + length (filter (\<lambda>r. r = DidUpdate) rs)
     + length (errorsOf i rs) = length rs"
proof (induction rs arbitrary: i)
  case Nil
  show ?case by simp
next
  case (Cons r rs)
  from Cons [of "Suc i"] show ?case by (cases r) simp_all
qed

lemma errorsOf_set:
  "e \<in> set (errorsOf k rs)
     \<longleftrightarrow> (\<exists>i m. i < length rs \<and> rs ! i = Caught m \<and> e = RowError (Suc (k + i)) ''general'' m)"
proof (induction rs arbitrary: k)
  case Nil
  show ?case by simp
next
  case (Cons r rs)
  have tl: "e \<in> set (errorsOf (Suc k) rs)
     \<longleftrightarrow> (\<exists>i m. i < length rs \<and> (r # rs) ! Suc i = Caught m
                  \<and> e = RowError (Suc (k + Suc i)) ''general'' m)"
    using Cons [of "Suc k"] by simp
  have hd: "e \<in> set (case r of Caught m \<Rightarrow> [RowError (Suc k) ''general'' m] | _ \<Rightarrow> [])
     \<longleftrightarrow> (\<exists>m. (r # rs) ! 0 = Caught m \<and> e = RowError (Suc (k + 0)) ''general'' m)"
    by (cases r) auto
  have split: "(\<exists>i m. i < length (r # rs) \<and> (r # rs) ! i = Caught m
                  \<and> e = RowError (Suc (k + i)) ''general'' m)
     \<longleftrightarrow> (\<exists>m. (r # rs) ! 0 = Caught m \<and> e = RowError (Suc (k + 0)) ''general'' m)
         \<or> (\<exists>i m. i < length rs \<and> (r # rs) ! Suc i = Caught m
                  \<and> e = RowError (Suc (k + Suc i)) ''general'' m)"
    (is "?L \<longleftrightarrow> ?A \<or> ?B")
  proof
    assume ?L
    then obtain i m where im: "i < length (r # rs)" "(r # rs) ! i = Caught m"
      "e = RowError (Suc (k + i)) ''general'' m" by blast
    show "?A \<or> ?B"
    proof (cases i)
      case 0
      with im show ?thesis by auto
    next
      case (Suc j)
      with im have "j < length rs" "(r # rs) ! Suc j = Caught m"
        "e = RowError (Suc (k + Suc j)) ''general'' m" by simp_all
      then show ?thesis by blast
    qed
  next
    assume "?A \<or> ?B"
    then show ?L
    proof
      assume ?A
      then show ?L by (metis length_greater_0_conv list.distinct(1))
    next
      assume ?B
      then obtain i m where "i < length rs" "(r # rs) ! Suc i = Caught m"
        "e = RowError (Suc (k + Suc i)) ''general'' m" by blast
      then have "Suc i < length (r # rs)" by simp
      with \<open>(r # rs) ! Suc i = Caught m\<close> \<open>e = RowError (Suc (k + Suc i)) ''general'' m\<close>
      show ?L by blast
    qed
  qed
  have "e \<in> set (errorsOf k (r # rs))
     \<longleftrightarrow> e \<in> set (case r of Caught m \<Rightarrow> [RowError (Suc k) ''general'' m] | _ \<Rightarrow> [])
         \<or> e \<in> set (errorsOf (Suc k) rs)"
    by simp
  with hd tl split show ?case by blast
qed

lemma processRows_results:
  "processRows step s i rows (inserted, updated, errors)
     = ((inserted + length (filter (\<lambda>r. r = DidInsert) (rowResults step s rows)),
         updated + length (filter (\<lambda>r. r = DidUpdate) (rowResults step s rows)),
         errors @ errorsOf i (rowResults step s rows)),
        stateAfter step s rows)"
proof (induction rows arbitrary: s i inserted updated errors)
  case Nil
  show ?case by simp
next
  case (Cons row rest)
  obtain r s1 where st: "step s row = (r, s1)" by (cases "step s row") auto
  show ?case
  proof (cases r)
    case DidInsert
    with st Cons [of s1 "Suc i" "Suc inserted" updated errors] show ?thesis by simp
  next
    case DidUpdate
    with st Cons [of s1 "Suc i" inserted "Suc updated" errors] show ?thesis by simp
  next
    case (Caught m)
    with st Cons [of s1 "Suc i" inserted updated "errors @ [RowError (Suc i) ''general'' m]"]
    show ?thesis by simp
  qed
qed

lemma POST_results:
  assumes "scopeStep db scope = Some step"
  shows "POST db s scope data
     = (Ok200 (length (filter (\<lambda>r. r = DidInsert) (rowResults step s data)))
          (length (filter (\<lambda>r. r = DidUpdate) (rowResults step s data)))
          (errorsOf 0 (rowResults step s data)),
        stateAfter step s data)"
  by (simp add: POST_def assms processRows_results)

lemma scopeStep_known:
  assumes "scope \<in> set [''warehouses'', ''inventory'', ''transactions'', ''spare_parts'', ''tasks'']"
  shows "\<exists>step. scopeStep db scope = Some step"
  using assms by (auto simp: scopeStep_def)

text \<open>
  C10. For a recognized scope the handler runs the scope's step on every input row in
  order, each in the state left by the rows before it, and answers with the three
  results: \<open>inserted\<close> is the number of rows whose step inserted, \<open>updated\<close> the number of
  rows whose step updated, and \<open>errors\<close> holds exactly one entry for each row whose step
  was caught, with the one-based index of that row and the message caught. So the three
  add up to the number of rows, and no row ends the loop.
\<close>

theorem POST_accounts_for_every_row:
  assumes "scope \<in> set [''warehouses'', ''inventory'', ''transactions'', ''spare_parts'', ''tasks'']"
  shows "\<exists>step. scopeStep db scope = Some step
     \<and> POST db s scope data
         = (Ok200 (length (filter (\<lambda>r. r = DidInsert) (rowResults step s data)))
              (length (filter (\<lambda>r. r = DidUpdate) (rowResults step s data)))
              (errorsOf 0 (rowResults step s data)),
            stateAfter step s data)
     \<and> length (rowResults step s data) = length data
     \<and> (\<forall>i < length data.
           rowResults step s data ! i = fst (step (stateAfter step s (take i data)) (data ! i)))
     \<and> (\<forall>e. e \<in> set (errorsOf 0 (rowResults step s data))
              \<longleftrightarrow> (\<exists>i m. i < length data \<and> rowResults step s data ! i = Caught m
                           \<and> e = RowError (Suc i) ''general'' m))
     \<and> length (filter (\<lambda>r. r = DidInsert) (rowResults step s data))
         + length (filter (\<lambda>r. r = DidUpdate) (rowResults step s data))
         + length (errorsOf 0 (rowResults step s data)) = length data"
proof -
  from scopeStep_known [OF assms] obtain step where st: "scopeStep db scope = Some step" by blast
  have a: "length (rowResults step s data) = length data"
    by (rule length_rowResults)
  have b: "\<forall>i < length data.
           rowResults step s data ! i = fst (step (stateAfter step s (take i data)) (data ! i))"
    by (simp add: rowResults_nth)
  have c: "\<forall>e. e \<in> set (errorsOf 0 (rowResults step s data))
              \<longleftrightarrow> (\<exists>i m. i < length data \<and> rowResults step s data ! i = Caught m
                           \<and> e = RowError (Suc i) ''general'' m)"
    using errorsOf_set [of _ 0 "rowResults step s data"] by (simp add: a)
  have d: "length (filter (\<lambda>r. r = DidInsert) (rowResults step s data))
         + length (filter (\<lambda>r. r = DidUpdate) (rowResults step s data))
         + length (errorsOf 0 (rowResults step s data)) = length data"
    using results_count [of "rowResults step s data" 0] by (simp add: a)
  from st POST_results [OF st] a b c d show ?thesis by blast
qed

theorem POST_accounts_for_every_row_witness:
  "''warehouses'' \<in> set [''warehouses'', ''inventory'', ''transactions'', ''spare_parts'', ''tasks'']
   \<and> scopeStep exampleApi ''warehouses'' = Some (warehousesRow exampleApi)
   \<and> rowResults (warehousesRow exampleApi) ()
        [NullRow, Row [(''name'', JStr ''known'')], Row [(''name'', JStr ''bad'')],
         Row [(''name'', JStr ''new'')]]
      = [Caught ''Cannot read properties of null (reading 'name')'', DidUpdate,
         Caught ''duplicate key value violates unique constraint'', DidInsert]
   \<and> POST exampleApi () ''warehouses''
        [NullRow, Row [(''name'', JStr ''known'')], Row [(''name'', JStr ''bad'')],
         Row [(''name'', JStr ''new'')]]
      = (Ok200 1 1
           [RowError 1 ''general'' ''Cannot read properties of null (reading 'name')'',
            RowError 3 ''general'' ''duplicate key value violates unique constraint''], ())"
proof -
  let ?data = "[NullRow, Row [(''name'', JStr ''known'')], Row [(''name'', JStr ''bad'')],
         Row [(''name'', JStr ''new'')]]"
  have a: "''warehouses'' \<in> set [''warehouses'', ''inventory'', ''transactions'', ''spare_parts'',
      ''tasks'']" by simp
  have b: "scopeStep exampleApi ''warehouses'' = Some (warehousesRow exampleApi)"
    by (simp add: scopeStep_def)
  have c: "rowResults (warehousesRow exampleApi) () ?data
      = [Caught ''Cannot read properties of null (reading 'name')'', DidUpdate,
         Caught ''duplicate key value violates unique constraint'', DidInsert]"
    by code_simp
  have e: "errorsOf 0 [Caught ''Cannot read properties of null (reading 'name')'', DidUpdate,
         Caught ''duplicate key value violates unique constraint'', DidInsert]
      = [RowError 1 ''general'' ''Cannot read properties of null (reading 'name')'',
         RowError 3 ''general'' ''duplicate key value violates unique constraint'']"
    by simp
  from POST_accounts_for_every_row [OF a, of exampleApi "()" ?data] b
  have "POST exampleApi () ''warehouses'' ?data
         = (Ok200 (length (filter (\<lambda>r. r = DidInsert) (rowResults (warehousesRow exampleApi) () ?data)))
              (length (filter (\<lambda>r. r = DidUpdate) (rowResults (warehousesRow exampleApi) () ?data)))
              (errorsOf 0 (rowResults (warehousesRow exampleApi) () ?data)),
            stateAfter (warehousesRow exampleApi) () ?data)"
    by auto
  then have d: "POST exampleApi () ''warehouses'' ?data
      = (Ok200 1 1
           [RowError 1 ''general'' ''Cannot read properties of null (reading 'name')'',
            RowError 3 ''general'' ''duplicate key value violates unique constraint''], ())"
    unfolding c e by simp
  from a b c d show ?thesis by (intro conjI)
qed

section \<open>Rows without an identifier\<close>

lemma getProp_sku:
  "getProp (payloadOf entropy r) ''sku''
     = JStr (stringOr (firstNonNull [cellAt (normOf r) ''item_id'', cellAt (normOf r) ''itemid'',
                                       cellAt (normOf r) ''item id''])
               (uuidLike (fst entropy) (snd entropy)))"
  by (simp add: payloadOf_def getProp_def Let_def)

lemma payloadsOf_nth:
  "i < length json \<Longrightarrow> payloadsOf entropy json ! i = payloadOf (entropy i) (json ! i)"
  by (simp add: payloadsOf_def nth_enumerate_eq)

lemma scopeStep_inventory: "scopeStep db ''inventory'' = Some (inventoryRow db)"
  by (simp add: scopeStep_def)

lemma inventoryRow_missing:
  assumes "\<not> truthyVal (getProp row ''sku'') \<or> \<not> truthyVal (getProp row ''name'')
           \<or> \<not> truthyVal (getProp row ''warehouse_id'')"
  shows "inventoryRow db t (Row row) = (Caught ''Missing required fields: sku, name, warehouse_id'', t)"
  using assms by (auto simp: inventoryRow_def)

text \<open>
  C9. Inventory page: every sheet row yields one payload, at the row's position, so no
  row is dropped; and a row in which none of the columns \<open>item_id\<close>, \<open>itemid\<close>,
  \<open>item id\<close> has a value gets as its \<open>sku\<close> the placeholder \<open>sku-\<close>, the clock reading
  in base 36, \<open>-\<close>, the random draw in base 36. Upload API, scope \<open>inventory\<close>: a row
  that lacks \<open>sku\<close>, \<open>name\<close> or \<open>warehouse_id\<close> is not written (its step makes no call and
  leaves the database as it is); it is caught and reported under its one-based index,
  wherever it stands in the request.
\<close>

theorem missing_identifier:
  "length (payloadsOf entropy json) = length json
   \<and> (\<forall>i < length json.
         cellAt (normOf (json ! i)) ''item_id'' = None
           \<and> cellAt (normOf (json ! i)) ''itemid'' = None
           \<and> cellAt (normOf (json ! i)) ''item id'' = None
         \<longrightarrow> getProp (payloadsOf entropy json ! i) ''sku''
               = JStr (''sku-'' @ toString36 (fst (entropy i)) @ ''-'' @ toString36 (snd (entropy i))))
   \<and> (\<forall>i < length data. \<forall>row.
         data ! i = Row row
           \<and> (\<not> truthyVal (getProp row ''sku'') \<or> \<not> truthyVal (getProp row ''name'')
                \<or> \<not> truthyVal (getProp row ''warehouse_id''))
         \<longrightarrow> (\<forall>t. inventoryRow db t (Row row)
                     = (Caught ''Missing required fields: sku, name, warehouse_id'', t))
             \<and> (\<exists>inserted updated errors s'.
                   POST db s ''inventory'' data = (Ok200 inserted updated errors, s')
                   \<and> RowError (Suc i) ''general'' ''Missing required fields: sku, name, warehouse_id''
                       \<in> set errors))"
proof -
  have a: "length (payloadsOf entropy json) = length json"
    by (rule length_payloadsOf)
  have b: "\<forall>i < length json.
         cellAt (normOf (json ! i)) ''item_id'' = None
           \<and> cellAt (normOf (json ! i)) ''itemid'' = None
           \<and> cellAt (normOf (json ! i)) ''item id'' = None
         \<longrightarrow> getProp (payloadsOf entropy json ! i) ''sku''
               = JStr (''sku-'' @ toString36 (fst (entropy i)) @ ''-'' @ toString36 (snd (entropy i)))"
    by (simp add: payloadsOf_nth getProp_sku orElse_def stringOr_def uuidLike_def)
  have c: "\<forall>i < length data. \<forall>row.
         data ! i = Row row
           \<and> (\<not> truthyVal (getProp row ''sku'') \<or> \<not> truthyVal (getProp row ''name'')
                \<or> \<not> truthyVal (getProp row ''warehouse_id''))
         \<longrightarrow> (\<forall>t. inventoryRow db t (Row row)
                     = (Caught ''Missing required fields: sku, name, warehouse_id'', t))
             \<and> (\<exists>inserted updated errors s'.
                   POST db s ''inventory'' data = (Ok200 inserted updated errors, s')
                   \<and> RowError (Suc i) ''general'' ''Missing required fields: sku, name, warehouse_id''
                       \<in> set errors)"
  proof (intro allI impI)
    fix i row
    assume i: "i < length data"
      and h: "data ! i = Row row
           \<and> (\<not> truthyVal (getProp row ''sku'') \<or> \<not> truthyVal (getProp row ''name'')
                \<or> \<not> truthyVal (getProp row ''warehouse_id''))"
    let ?msg = "''Missing required fields: sku, name, warehouse_id''"
    let ?rs = "rowResults (inventoryRow db) s data"
    from h have m: "\<And>t. inventoryRow db t (Row row) = (Caught ?msg, t)"
      by (intro inventoryRow_missing) simp
    from i h have "?rs ! i = Caught ?msg"
      by (simp add: rowResults_nth m)
    with i have "RowError (Suc i) ''general'' ?msg \<in> set (errorsOf 0 ?rs)"
      using errorsOf_set [of "RowError (Suc i) ''general'' ?msg" 0 ?rs]
      by (auto simp: length_rowResults)
    with POST_results [OF scopeStep_inventory, of db s data] m
    show "(\<forall>t. inventoryRow db t (Row row) = (Caught ?msg, t))
             \<and> (\<exists>inserted updated errors s'.
                   POST db s ''inventory'' data = (Ok200 inserted updated errors, s')
                   \<and> RowError (Suc i) ''general'' ?msg \<in> set errors)"
      by blast
  qed
  from a b c show ?thesis by (intro conjI)
qed

theorem missing_identifier_witness:
  "cellAt (normOf ([[(''Item_Name'', Some ''Bolt'')]] ! 0)) ''item_id'' = None
   \<and> cellAt (normOf ([[(''Item_Name'', Some ''Bolt'')]] ! 0)) ''itemid'' = None
   \<and> cellAt (normOf ([[(''Item_Name'', Some ''Bolt'')]] ! 0)) ''item id'' = None
   \<and> getProp (payloadsOf (\<lambda>i. (1762041600000, 123456)) [[(''Item_Name'', Some ''Bolt'')]] ! 0) ''sku''
       = JStr ''sku-mhgy2o00-2n9c''
   \<and> \<not> truthyVal (getProp [(''sku'', JStr ''B-2''), (''warehouse_id'', JStr ''W1'')] ''name'')
   \<and> inventoryRow exampleApi () (Row [(''sku'', JStr ''B-2''), (''warehouse_id'', JStr ''W1'')])
       = (Caught ''Missing required fields: sku, name, warehouse_id'', ())
   \<and> POST exampleApi () ''inventory''
         [Row [(''sku'', JStr ''known''), (''name'', JStr ''Bolt''), (''warehouse_id'', JStr ''W1'')],
          Row [(''sku'', JStr ''B-2''), (''warehouse_id'', JStr ''W1'')]]
       = (Ok200 0 1 [RowError 2 ''general'' ''Missing required fields: sku, name, warehouse_id''], ())
   \<and> RowError 2 ''general'' ''Missing required fields: sku, name, warehouse_id''
       \<in> set [RowError 2 ''general'' ''Missing required fields: sku, name, warehouse_id'']"
proof -
  let ?json = "[[(''Item_Name'', Some ''Bolt'')]]"
  let ?ent = "\<lambda>i::nat. (1762041600000::int, 123456::int)"
  let ?row = "[(''sku'', JStr ''B-2''), (''warehouse_id'', JStr ''W1'')]"
  let ?data = "[Row [(''sku'', JStr ''known''), (''name'', JStr ''Bolt''), (''warehouse_id'', JStr ''W1'')],
          Row ?row]"
  let ?msg = "''Missing required fields: sku, name, warehouse_id''"
  have a1: "cellAt (normOf (?json ! 0)) ''item_id'' = None" by code_simp
  have a2: "cellAt (normOf (?json ! 0)) ''itemid'' = None" by code_simp
  have a3: "cellAt (normOf (?json ! 0)) ''item id'' = None" by code_simp
  have e: "''sku-'' @ toString36 1762041600000 @ ''-'' @ toString36 123456 = ''sku-mhgy2o00-2n9c''"
    by code_simp
  have c: "\<not> truthyVal (getProp ?row ''name'')" by code_simp
  have p: "POST exampleApi () ''inventory'' ?data = (Ok200 0 1 [RowError 2 ''general'' ?msg], ())"
    by code_simp
  note t = missing_identifier [where json = "?json" and entropy = "?ent" and data = "?data"
      and db = exampleApi and s = "()"]
  from t have t2: "\<forall>i < length ?json.
         cellAt (normOf (?json ! i)) ''item_id'' = None
           \<and> cellAt (normOf (?json ! i)) ''itemid'' = None
           \<and> cellAt (normOf (?json ! i)) ''item id'' = None
         \<longrightarrow> getProp (payloadsOf ?ent ?json ! i) ''sku''
               = JStr (''sku-'' @ toString36 (fst (?ent i)) @ ''-'' @ toString36 (snd (?ent i)))"
    by (elim conjE)
  from t2 a1 a2 a3 have "getProp (payloadsOf ?ent ?json ! 0) ''sku''
       = JStr (''sku-'' @ toString36 1762041600000 @ ''-'' @ toString36 123456)"
    by simp
  then have p1: "getProp (payloadsOf ?ent ?json ! 0) ''sku'' = JStr ''sku-mhgy2o00-2n9c''"
    by (simp only: e)
  from t have t3: "\<forall>i < length ?data. \<forall>row.
         ?data ! i = Row row
           \<and> (\<not> truthyVal (getProp row ''sku'') \<or> \<not> truthyVal (getProp row ''name'')
                \<or> \<not> truthyVal (getProp row ''warehouse_id''))
         \<longrightarrow> (\<forall>t. inventoryRow exampleApi t (Row row) = (Caught ?msg, t))
             \<and> (\<exists>inserted updated errors s'.
                   POST exampleApi () ''inventory'' ?data = (Ok200 inserted updated errors, s')
                   \<and> RowError (Suc i) ''general'' ?msg \<in> set errors)"
    by (elim conjE)
  have i1: "(1::nat) < length ?data" and d1: "?data ! 1 = Row ?row" by simp_all
  from t3 [rule_format, OF i1, of ?row] d1 c
  have q: "(\<forall>t. inventoryRow exampleApi t (Row ?row) = (Caught ?msg, t))
             \<and> (\<exists>inserted updated errors s'.
                   POST exampleApi () ''inventory'' ?data = (Ok200 inserted updated errors, s')
                   \<and> RowError (Suc 1) ''general'' ?msg \<in> set errors)"
    by blast
  then have q1: "inventoryRow exampleApi () (Row ?row) = (Caught ?msg, ())" by blast
  from q p have q2: "RowError 2 ''general'' ?msg \<in> set [RowError 2 ''general'' ?msg]"
    by simp
  from a1 a2 a3 p1 c q1 p q2 show ?thesis by (intro conjI)
qed

theorem missing_identifier_counterexample:
  "\<not> truthyVal (getProp [(''name'', JStr ''Bolt''), (''warehouse_id'', JStr ''W1'')] ''sku'')
   \<and> POST exampleApi () ''inventory''
         [Row [(''sku'', JStr ''known''), (''name'', JStr ''Bolt''), (''warehouse_id'', JStr ''W1'')],
          Row [(''name'', JStr ''Bolt''), (''warehouse_id'', JStr ''W1'')]]
       = (Ok200 0 1 [RowError 2 ''general'' ''Missing required fields: sku, name, warehouse_id''], ())
   \<and> getProp (payloadOf (1762041600000, 123456) [(''Item_Name'', Some ''Bolt'')]) ''sku''
       = getProp (payloadOf (1762041600000, 123456) [(''Item_Name'', Some ''Nut'')]) ''sku''"
  by code_simp

section \<open>Properties of the staging merge\<close>

lemma map_of_mapSet: "map_of (mapSet k v m) k' = (if k' = k then Some v else map_of m k')"
  by (induction m) auto

lemma map_of_spread:
  assumes "distinct (map fst B)"
  shows "map_of (spread A B) f = (case map_of B f of Some v \<Rightarrow> Some v | None \<Rightarrow> map_of A f)"
  using assms
proof (induction B arbitrary: A)
  case Nil
  show ?case by (simp add: spread_def)
next
  case (Cons kv B)
  obtain k v where kv: "kv = (k, v)" by (cases kv)
  from Cons.prems kv have d: "distinct (map fst B)" and nk: "k \<notin> fst ` set B" by auto
  have "spread A (kv # B) = spread (mapSet k v A) B"
    by (simp add: spread_def kv)
  then have "map_of (spread A (kv # B)) f
      = (case map_of B f of Some w \<Rightarrow> Some w | None \<Rightarrow> map_of (mapSet k v A) f)"
    using Cons.IH [OF d, of "mapSet k v A"] by simp
  also have "\<dots> = (case map_of (kv # B) f of Some w \<Rightarrow> Some w | None \<Rightarrow> map_of A f)"
  proof (cases "f = k")
    case True
    with nk have "map_of B f = None" by (simp add: map_of_eq_None_iff)
    with True show ?thesis by (simp add: kv map_of_mapSet)
  next
    case False
    then show ?thesis by (simp add: kv map_of_mapSet split: option.splits)
  qed
  finally show ?case .
qed

lemma getProp_spread:
  assumes "distinct (map fst B)"
  shows "getProp (spread A B) f = (if f \<in> fst ` set B then getProp B f else getProp A f)"
proof (cases "map_of B f")
  case None
  then have "f \<notin> fst ` set B" by (simp add: map_of_eq_None_iff)
  with None show ?thesis by (simp add: getProp_def map_of_spread [OF assms])
next
  case (Some v)
  then have "f \<in> fst ` set B" by (metis map_of_eq_None_iff option.distinct(1))
  with Some show ?thesis by (simp add: getProp_def map_of_spread [OF assms])
qed

text \<open>
  C1. When a record \<open>A\<close> is staged under the key of an incoming record \<open>B\<close>, staging \<open>B\<close>
  puts under that key a record that has, for every field \<open>B\<close> carries, the value \<open>B\<close>
  has for it (also when that value is \<open>undefined\<close> or \<open>null\<close>), and for every field \<open>B\<close>
  does not carry the value \<open>A\<close> has for it.
\<close>

theorem merge_overrides:
  assumes "map_of byKey (keyOf numText B) = Some A" and "distinct (map fst B)"
  shows "\<exists>M. map_of (stageItem numText byKey B) (keyOf numText B) = Some M
           \<and> (\<forall>f. getProp M f = (if f \<in> fst ` set B then getProp B f else getProp A f))"
proof -
  have "map_of (stageItem numText byKey B) (keyOf numText B) = Some (spread A B)"
    by (simp add: stageItem_def assms(1) map_of_mapSet)
  with getProp_spread [OF assms(2)] show ?thesis by blast
qed

theorem merge_overrides_witness:
  "map_of [(''SKU-1::W1'', stagedBolt)] (keyOf (\<lambda>q. []) incomingBolt) = Some stagedBolt
   \<and> distinct (map fst incomingBolt)
   \<and> (\<exists>M. map_of (stageItem (\<lambda>q. []) [(''SKU-1::W1'', stagedBolt)] incomingBolt)
              (keyOf (\<lambda>q. []) incomingBolt) = Some M
          \<and> (\<forall>f. getProp M f
                 = (if f \<in> fst ` set incomingBolt then getProp incomingBolt f
                    else getProp stagedBolt f)))
   \<and> stageItem (\<lambda>q. []) [(''SKU-1::W1'', stagedBolt)] incomingBolt
       = [(''SKU-1::W1'', incomingBolt)]"
proof -
  have a: "map_of [(''SKU-1::W1'', stagedBolt)] (keyOf (\<lambda>q. []) incomingBolt) = Some stagedBolt"
    by code_simp
  have b: "distinct (map fst incomingBolt)"
    by code_simp
  have c: "stageItem (\<lambda>q. []) [(''SKU-1::W1'', stagedBolt)] incomingBolt
       = [(''SKU-1::W1'', incomingBolt)]"
    by code_simp
  note t = merge_overrides [OF a b]
  from a b t c show ?thesis by (intro conjI)
qed

theorem merge_null_field_counterexample:
  "keyOf (\<lambda>q. []) stagedBolt = keyOf (\<lambda>q. []) incomingBolt
   \<and> getProp incomingBolt ''rackId'' = JUndefined
   \<and> getProp stagedBolt ''rackId'' = JStr ''R1''
   \<and> mergeInventory (\<lambda>q. []) [stagedBolt] [incomingBolt] = [incomingBolt]
   \<and> getProp (hd (mergeInventory (\<lambda>q. []) [stagedBolt] [incomingBolt])) ''rackId'' = JUndefined
   \<and> getProp (hd (mergeInventory (\<lambda>q. []) [stagedBolt] [incomingBolt])) ''rackId''
       \<noteq> getProp stagedBolt ''rackId''"
  by code_simp

end
